theory Spec2Isabelle
  imports Main "HOL-Library.Word"
begin

unbundle bit_operations_syntax

section \<open>Common types\<close>

text \<open>
  Error codes of \<^verbatim>\<open>kern/errno.h\<close>. The kernel returns them as small positive
  integers; \<open>Errno n\<close> stands for any code that an external routine (VFS, copyin/copyout,
  the ELF loader) may hand back and that the modelled code only passes through.
  A syscall routine returns \<open>int\<close>: \<open>None\<close> is the return value 0, \<open>Some e\<close> the error
  \<open>e\<close>. What a routine stores through its \<^verbatim>\<open>retval\<close> pointer is a separate component
  (\<open>None\<close> when nothing was stored).
\<close>

datatype errno =
  EBADF | EFAULT | EINVAL | ENOMEM | EMFILE | ENPROC | ESRCH | ECHILD | ESPIPE | E2BIG
  | ENAMETOOLONG | Errno nat

type_synonym vaddr_t = "32 word"
type_synonym paddr_t = "32 word"

definition PAGE_SIZE :: "32 word" where
  "PAGE_SIZE = 4096"

definition PAGE_FRAME :: "32 word" where
  "PAGE_FRAME = 0xfffff000"

text \<open>
  The routines below use constants and macros of kernel headers that are not among the
  sources (\<^verbatim>\<open>kern/limits.h\<close>, \<^verbatim>\<open>kern/fcntl.h\<close>, \<^verbatim>\<open>kern/errno.h\<close>, \<^verbatim>\<open>kern/wait.h\<close>,
  \<^verbatim>\<open>mips/tlb.h\<close>, \<^verbatim>\<open>mips/vm.h\<close>). They are taken as parameters: every routine
  receives the record \<open>K\<close> of their values, and the theorems hold for every \<open>K\<close>.
  \<open>ENPROC_value\<close> is the integer that \<^verbatim>\<open>ENPROC\<close> expands to, \<open>MKWAIT_EXIT\<close> the macro
  \<^verbatim>\<open>_MKWAIT_EXIT\<close>, \<open>TLBHI_INVALID\<close> and \<open>TLBLO_INVALID\<close> the macros of these names.
\<close>

record kconf =
  OPEN_MAX :: nat
  PID_MIN :: nat
  PID_MAX :: nat
  ENPROC_value :: int
  O_ACCMODE :: "32 word"
  O_RDONLY :: "32 word"
  O_WRONLY :: "32 word"
  O_APPEND :: "32 word"
  MKWAIT_EXIT :: "32 word \<Rightarrow> 32 word"
  NUM_TLB :: nat
  TLBLO_VALID :: "32 word"
  TLBLO_DIRTY :: "32 word"
  TLBHI_INVALID :: "nat \<Rightarrow> 32 word"
  TLBLO_INVALID :: "32 word"
  MIPS_KSEG0 :: "32 word"
  USERSTACK :: "32 word"
  ARG_MAX_limit :: nat
  PATH_MAX :: nat

text \<open>
  One configuration to evaluate the routines on: the values OS/161 is commonly built
  with.
\<close>

definition os161 :: kconf where
  "os161 = \<lparr>OPEN_MAX = 128, PID_MIN = 2, PID_MAX = 32767, ENPROC_value = 12,
     O_ACCMODE = 3, O_RDONLY = 0, O_WRONLY = 1, O_APPEND = 32,
     MKWAIT_EXIT = (\<lambda>x. push_bit 2 x),
     NUM_TLB = 64, TLBLO_VALID = 0x200, TLBLO_DIRTY = 0x400,
     TLBHI_INVALID = (\<lambda>i. push_bit 12 (0x80000 + of_nat i)), TLBLO_INVALID = 0,
     MIPS_KSEG0 = 0x80000000, USERSTACK = 0x80000000, ARG_MAX_limit = 65536, PATH_MAX = 1024\<rparr>"

text \<open>
  How a call ends. \<open>Done x\<close>: it returns \<open>x\<close>. \<open>Undefined\<close>: it reads or writes memory
  it does not own (an array index out of range, an object already freed), which C leaves
  undefined. \<open>Panic\<close>: a \<^verbatim>\<open>KASSERT\<close> fails and the kernel stops. \<open>Blocked\<close>: the calling
  thread sleeps on a condition variable and the call has not returned.
\<close>

datatype 'a outcome = Done 'a | Undefined | Panic | Blocked

definition obind :: "'a outcome \<Rightarrow> ('a \<Rightarrow> 'b outcome) \<Rightarrow> 'b outcome" where
  "obind m f = (case m of Done x \<Rightarrow> f x | Undefined \<Rightarrow> Undefined | Panic \<Rightarrow> Panic
     | Blocked \<Rightarrow> Blocked)"

section \<open>Virtual memory: data model\<close>

text \<open>
  \<^verbatim>\<open>struct coremap_entry\<close> of \<^verbatim>\<open>coremap.c\<close>, and the allocator's globals. The array
  \<^verbatim>\<open>coremap[0 .. total_pages)\<close> is the list \<open>coremap\<close>; \<^verbatim>\<open>total_pages\<close> is its length.
\<close>

record coremap_entry =
  free :: bool
  block_size :: nat

record coremap_state =
  coremap :: "coremap_entry list"
  first_paddr :: paddr_t
  coremap_ready :: bool

definition total_pages :: "coremap_state \<Rightarrow> nat" where
  "total_pages c = length (coremap c)"

text \<open>
  \<^verbatim>\<open>struct region\<close> and \<^verbatim>\<open>struct addrspace\<close> as \<^verbatim>\<open>addrspace.c\<close> and \<^verbatim>\<open>vm.c\<close> use them.
  The linked list of regions is a list in link order. The level-1 table has
  \<open>2 ^ 10\<close> slots, each \<^verbatim>\<open>NULL\<close> (\<open>None\<close>) or a level-2 array of \<open>2 ^ 10\<close> frame
  addresses; both are indexed by the 10-bit values that \<^verbatim>\<open>vm_fault\<close> computes.
\<close>

record region =
  vbase :: vaddr_t
  npages :: "32 word"
  readable :: bool
  writeable :: bool
  executable :: bool

record addrspace =
  regions :: "region list"
  pt_l1 :: "nat \<Rightarrow> (nat \<Rightarrow> paddr_t) option"
  heap_base :: vaddr_t
  heap_end :: vaddr_t
  stack_base :: vaddr_t
  stack_end :: vaddr_t
  loading :: bool

text \<open>
  The part of the kernel state the VM routines touch: the address space of the current
  process (\<^verbatim>\<open>proc_getas()\<close>, \<open>None\<close> for \<^verbatim>\<open>NULL\<close>), the coremap, and the TLB: the
  \<^verbatim>\<open>(entryhi, entrylo)\<close> pair of each slot, of which the slots below \<open>NUM_TLB K\<close> exist.
\<close>

record vm_state =
  cur_as :: "addrspace option"
  cm :: coremap_state
  tlb :: "nat \<Rightarrow> 32 word \<times> 32 word"

section \<open>The physical allocator (\<^verbatim>\<open>coremap.c\<close>)\<close>

text \<open>
  Modelled from the spec: the direct-mapped kernel segment, whose macros
  \<^verbatim>\<open>PADDR_TO_KVADDR\<close> and \<^verbatim>\<open>KVADDR_TO_PADDR\<close> are not among the sources: a physical
  address and its kernel virtual address differ by the base of the segment.
\<close>

definition PADDR_TO_KVADDR :: "kconf \<Rightarrow> paddr_t \<Rightarrow> vaddr_t" where
  "PADDR_TO_KVADDR K pa = pa + MIPS_KSEG0 K"

definition KVADDR_TO_PADDR :: "kconf \<Rightarrow> vaddr_t \<Rightarrow> paddr_t" where
  "KVADDR_TO_PADDR K kva = kva - MIPS_KSEG0 K"

text \<open>
  \<^verbatim>\<open>vm_bootstrap\<close>: \<open>hi\<close> and \<open>lo\<close> are what \<^verbatim>\<open>ram_getsize\<close> and \<^verbatim>\<open>ram_getfirstfree\<close>
  return, \<open>entry_size\<close> is \<^verbatim>\<open>sizeof(struct coremap_entry)\<close>. Every frame after the
  coremap starts free with block size 0.
\<close>

definition vm_bootstrap :: "paddr_t \<Rightarrow> paddr_t \<Rightarrow> 32 word \<Rightarrow> coremap_state" where
  "vm_bootstrap hi0 lo0 entry_size =
     (let hi = hi0 AND PAGE_FRAME;
          lo = (lo0 + PAGE_SIZE - 1) AND PAGE_FRAME;
          total_ram_pages = (hi - lo) div PAGE_SIZE;
          coremap_bytes = total_ram_pages * entry_size;
          coremap_pages = (coremap_bytes + PAGE_SIZE - 1) div PAGE_SIZE;
          first = lo + coremap_pages * PAGE_SIZE;
          total = unat ((hi - first) div PAGE_SIZE)
      in \<lparr>coremap = replicate total \<lparr>free = True, block_size = 0\<rparr>,
          first_paddr = first, coremap_ready = True\<rparr>)"

text \<open>
  The scan of \<^verbatim>\<open>alloc_page\<close> from index \<open>i\<close>: the index of the first free frame.
\<close>

function alloc_page_scan :: "nat \<Rightarrow> coremap_entry list \<Rightarrow> nat option" where
  "alloc_page_scan i cmap =
     (if i < length cmap
      then (if free (cmap ! i) then Some i else alloc_page_scan (Suc i) cmap)
      else None)"
  by pat_completeness auto
termination
  by (relation "measure (\<lambda>(i, cmap). length cmap - i)") auto

text \<open>
  \<^verbatim>\<open>alloc_page\<close>. Before bootstrap it returns what \<^verbatim>\<open>ram_stealmem(1)\<close> returns, the
  first argument.
\<close>

definition alloc_page :: "paddr_t \<Rightarrow> coremap_state \<Rightarrow> paddr_t \<times> coremap_state" where
  "alloc_page stolen c =
     (if \<not> coremap_ready c then (stolen, c)
      else case alloc_page_scan 0 (coremap c) of
             Some i \<Rightarrow>
               (first_paddr c + of_nat i * PAGE_SIZE,
                c\<lparr>coremap := (coremap c)[i := \<lparr>free = False, block_size = 1\<rparr>]\<rparr>)
           | None \<Rightarrow> (0, c))"

definition free_page :: "paddr_t \<Rightarrow> coremap_state \<Rightarrow> coremap_state outcome" where
  "free_page pa c =
     (if \<not> coremap_ready c then Done c
      else if pa < first_paddr c then Done c
      else
        let cm_idx = unat ((pa - first_paddr c) div PAGE_SIZE)
        in if \<not> cm_idx < total_pages c then Panic
           else if block_size (coremap c ! cm_idx) \<noteq> 1 then Panic
           else Done (c\<lparr>coremap := (coremap c)[cm_idx := \<lparr>free = True, block_size = 0\<rparr>]\<rparr>))"

text \<open>
  \<^verbatim>\<open>alloc_kpages\<close>, with \<open>np\<close> for \<^verbatim>\<open>npages\<close>. \<open>run_ok i j np cmap\<close> is the inner loop
  from \<open>j\<close> on: whether the frames \<open>i + j, ..., i + np - 1\<close> all exist and are free. \<open>alloc_kpages_scan\<close> is
  the outer loop from \<open>i\<close> on: the first index that is free and starts such a run.
  \<open>mark_interior\<close> is the second inner loop, over \<open>j = 1, ..., np - 1\<close>.
\<close>

function run_ok :: "nat \<Rightarrow> nat \<Rightarrow> nat \<Rightarrow> coremap_entry list \<Rightarrow> bool" where
  "run_ok i j np cmap =
     (if j < np
      then (if i + j \<ge> length cmap \<or> \<not> free (cmap ! (i + j)) then False
            else run_ok i (Suc j) np cmap)
      else True)"
  by pat_completeness auto
termination
  by (relation "measure (\<lambda>(i, j, np, cmap). np - j)") auto

function alloc_kpages_scan :: "nat \<Rightarrow> nat \<Rightarrow> coremap_entry list \<Rightarrow> nat option" where
  "alloc_kpages_scan i np cmap =
     (if i < length cmap
      then (if \<not> free (cmap ! i) then alloc_kpages_scan (Suc i) np cmap
            else if run_ok i 0 np cmap then Some i
            else alloc_kpages_scan (Suc i) np cmap)
      else None)"
  by pat_completeness auto
termination
  by (relation "measure (\<lambda>(i, np, cmap). length cmap - i)") auto

fun mark_interior :: "nat \<Rightarrow> nat list \<Rightarrow> coremap_entry list \<Rightarrow> coremap_entry list" where
  "mark_interior i [] cmap = cmap"
| "mark_interior i (j # js) cmap =
     mark_interior i js (cmap[i + j := \<lparr>free = False, block_size = 0\<rparr>])"

definition alloc_kpages :: "kconf \<Rightarrow> paddr_t \<Rightarrow> nat \<Rightarrow> coremap_state \<Rightarrow> vaddr_t \<times> coremap_state" where
  \<comment> \<open>the second argument is what \<^verbatim>\<open>ram_stealmem(npages)\<close> returns\<close>
  "alloc_kpages K stolen np c =
     (if \<not> coremap_ready c then (if stolen = 0 then (0, c) else (PADDR_TO_KVADDR K stolen, c))
      else case alloc_kpages_scan 0 np (coremap c) of
             Some i \<Rightarrow>
               (PADDR_TO_KVADDR K (first_paddr c + of_nat i * PAGE_SIZE),
                c\<lparr>coremap := mark_interior i [1..<np]
                     ((coremap c)[i := \<lparr>free = False, block_size = np\<rparr>])\<rparr>)
           | None \<Rightarrow> (0, c))"

text \<open>
  \<^verbatim>\<open>free_kpages\<close>. Its loop writes \<^verbatim>\<open>coremap[index + i]\<close> for each \<open>i\<close> below the block
  size read at the head, without a bound check of its own.
\<close>

fun free_kpages_loop :: "nat \<Rightarrow> nat list \<Rightarrow> coremap_entry list \<Rightarrow> coremap_entry list outcome" where
  "free_kpages_loop index [] cmap = Done cmap"
| "free_kpages_loop index (i # is) cmap =
     (if index + i < length cmap
      then free_kpages_loop index is (cmap[index + i := \<lparr>free = True, block_size = 0\<rparr>])
      else Undefined)"

definition free_kpages :: "kconf \<Rightarrow> vaddr_t \<Rightarrow> coremap_state \<Rightarrow> coremap_state outcome" where
  "free_kpages K kvaddr c =
     (if \<not> coremap_ready c then Done c
      else
        let pa = KVADDR_TO_PADDR K kvaddr
        in if pa < first_paddr c then Done c
           else
             let index = unat ((pa - first_paddr c) div PAGE_SIZE)
             in if \<not> index < total_pages c then Panic
                else
                  let block_ln = block_size (coremap c ! index)
                  in if \<not> block_ln > 0 then Panic
                     else obind (free_kpages_loop index [0..<block_ln] (coremap c))
                            (\<lambda>cmap. Done (c\<lparr>coremap := cmap\<rparr>)))"

text \<open>
  The two sides of the accounting invariant: the sum of the block sizes recorded at the
  frames in use (a frame inside an allocation records 0, so this is the sum over the
  heads), and the number of frames in use.
\<close>

definition sum_of_head_block_sizes :: "coremap_entry list \<Rightarrow> nat" where
  "sum_of_head_block_sizes cmap = sum_list (map block_size (filter (\<lambda>e. \<not> free e) cmap))"

definition count_in_use :: "coremap_entry list \<Rightarrow> nat" where
  "count_in_use cmap = length (filter (\<lambda>e. \<not> free e) cmap)"

text \<open>
  The shape of a coremap that the allocator maintains: a free frame records block size 0;
  a frame that records block size \<open>b\<close> is followed, inside the array, by \<open>b - 1\<close> frames
  in use that record 0. \<open>coremap_inv\<close> adds the accounting equation.
\<close>

definition coremap_ok :: "coremap_entry list \<Rightarrow> bool" where
  "coremap_ok cmap =
     list_all (\<lambda>i. (free (cmap ! i) \<longrightarrow> block_size (cmap ! i) = 0)
                  \<and> i + block_size (cmap ! i) \<le> length cmap
                  \<and> list_all (\<lambda>j. \<not> free (cmap ! (i + j)) \<and> block_size (cmap ! (i + j)) = 0)
                       [1..<block_size (cmap ! i)])
       [0..<length cmap]"

definition coremap_inv :: "coremap_state \<Rightarrow> bool" where
  "coremap_inv c \<longleftrightarrow>
     coremap_ok (coremap c) \<and> sum_of_head_block_sizes (coremap c) = count_in_use (coremap c)"

text \<open>A coremap of four frames just after bootstrap.\<close>

definition fresh_coremap :: coremap_state where
  "fresh_coremap = \<lparr>coremap = [\<lparr>free = True, block_size = 0\<rparr>, \<lparr>free = True, block_size = 0\<rparr>,
       \<lparr>free = True, block_size = 0\<rparr>, \<lparr>free = True, block_size = 0\<rparr>],
     first_paddr = 0x100000, coremap_ready = True\<rparr>"

section \<open>sbrk\<close>

text \<open>
  \<^verbatim>\<open>sys_sbrk\<close> of \<^verbatim>\<open>sbrk_syscall.c\<close>. \<^verbatim>\<open>intptr_t amount\<close> is a 32-bit word read as a
  signed number (\<open>sint\<close>); \<^verbatim>\<open>old_end + amount\<close> is unsigned 32-bit addition, which wraps.
  The result is the triple (return value, value stored in \<^verbatim>\<open>*retval\<close>, state after).
\<close>

definition sys_sbrk :: "32 word \<Rightarrow> vm_state \<Rightarrow> errno option \<times> 32 word option \<times> vm_state" where
  "sys_sbrk amount k =
     (case cur_as k of
        None \<Rightarrow> (Some ENOMEM, None, k)
      | Some as \<Rightarrow>
          let retval = heap_end as in
          if amount = 0 then (None, Some retval, k)
          else
            let old_end = heap_end as;
                new_end = old_end + amount
            in if (0 < sint amount \<and> new_end < old_end) \<or> (sint amount < 0 \<and> new_end > old_end)
               then (Some ENOMEM, Some retval, k)
               else if new_end < heap_base as then (Some EINVAL, Some retval, k)
               else if new_end \<ge> stack_end as then (Some ENOMEM, Some retval, k)
               else (None, Some retval, k\<lparr>cur_as := Some (as\<lparr>heap_end := new_end\<rparr>)\<rparr>))"

text \<open>
  The exact (unbounded) sum of the old break and the signed amount leaves the range of a
  32-bit address: this is what "unsigned wraparound" means.
\<close>

definition sbrk_wraps :: "32 word \<Rightarrow> 32 word \<Rightarrow> bool" where
  "sbrk_wraps old_end amount \<longleftrightarrow>
     uint old_end + sint amount < 0 \<or> 2 ^ 32 \<le> uint old_end + sint amount"

text \<open>An address space and kernel state used to exercise \<open>sys_sbrk\<close>.\<close>

definition example_as :: addrspace where
  "example_as = \<lparr>regions = [], pt_l1 = (\<lambda>_. None), heap_base = 0x400000, heap_end = 0x401000,
     stack_base = 0x80000000, stack_end = 0x7ffff000, loading = False\<rparr>"

definition example_vm :: vm_state where
  "example_vm = \<lparr>cur_as = Some example_as,
     cm = \<lparr>coremap = [], first_paddr = 0, coremap_ready = False\<rparr>, tlb = (\<lambda>i. (0, 0))\<rparr>"


text \<open>The coremap after \<open>alloc_kpages(0)\<close> on the fresh one.\<close>

definition leaked_coremap :: coremap_state where
  "leaked_coremap = \<lparr>coremap = [\<lparr>free = False, block_size = 0\<rparr>, \<lparr>free = True, block_size = 0\<rparr>,
       \<lparr>free = True, block_size = 0\<rparr>, \<lparr>free = True, block_size = 0\<rparr>],
     first_paddr = 0x100000, coremap_ready = True\<rparr>"

section \<open>Address spaces (\<^verbatim>\<open>addrspace.c\<close>)\<close>






definition tlb_flush :: "kconf \<Rightarrow> (nat \<Rightarrow> 32 word \<times> 32 word) \<Rightarrow> (nat \<Rightarrow> 32 word \<times> 32 word)" where
  "tlb_flush K t = (\<lambda>i. if i < NUM_TLB K then (TLBHI_INVALID K i, TLBLO_INVALID K) else t i)"

definition as_activate :: "kconf \<Rightarrow> vm_state \<Rightarrow> vm_state" where
  "as_activate K k = (case cur_as k of None \<Rightarrow> k | Some as \<Rightarrow> k\<lparr>tlb := tlb_flush K (tlb k)\<rparr>)"

definition as_define_region :: "bool \<Rightarrow> addrspace \<Rightarrow> vaddr_t \<Rightarrow> 32 word \<Rightarrow> bool \<Rightarrow> bool \<Rightarrow> bool \<Rightarrow>
    errno option \<times> addrspace" where
  "as_define_region ok as vaddr0 sz0 rd wr ex =
     (let sz1 = sz0 + (vaddr0 AND NOT PAGE_FRAME);
          vaddr = vaddr0 AND PAGE_FRAME;
          sz = (sz1 + PAGE_SIZE - 1) AND PAGE_FRAME;
          np = sz div PAGE_SIZE
      in if \<not> ok then (Some ENOMEM, as)
         else
           let r = \<lparr>vbase = vaddr, npages = np, readable = rd, writeable = wr, executable = ex\<rparr>;
               as1 = as\<lparr>regions := r # regions as\<rparr>;
               reg_end = vbase r + npages r * PAGE_SIZE
           in if heap_base as1 = 0 \<or> reg_end > heap_base as1
              then (None, as1\<lparr>heap_base := reg_end, heap_end := reg_end\<rparr>)
              else (None, as1))"

definition as_prepare_load :: "addrspace \<Rightarrow> errno option \<times> addrspace" where
  "as_prepare_load as = (None, as\<lparr>loading := True\<rparr>)"


section \<open>The page-fault handler (\<^verbatim>\<open>vm.c\<close>)\<close>

datatype faulttype = VM_FAULT_READ | VM_FAULT_WRITE | VM_FAULT_READONLY

text \<open>
  The loop over the regions: the first region whose range
  \<^verbatim>\<open>[vbase, vbase + npages * PAGE_SIZE)\<close> (its end computed in 32 bits) holds the address.
\<close>

fun find_region :: "region list \<Rightarrow> vaddr_t \<Rightarrow> region option" where
  "find_region [] a = None"
| "find_region (r # rs) a =
     (if a \<ge> vbase r \<and> a < vbase r + npages r * PAGE_SIZE then Some r else find_region rs a)"

text \<open>The loop over the TLB slots: the first slot whose entry is not valid.\<close>

fun tlb_find_invalid :: "kconf \<Rightarrow> nat list \<Rightarrow> (nat \<Rightarrow> 32 word \<times> 32 word) \<Rightarrow> nat option" where
  "tlb_find_invalid K [] t = None"
| "tlb_find_invalid K (i # is) t =
     (if snd (t i) AND TLBLO_VALID K = 0 then Some i else tlb_find_invalid K is t)"

text \<open>
  Steps of \<^verbatim>\<open>vm_fault\<close>. \<open>classify_fault\<close> computes the flags \<^verbatim>\<open>in_region\<close> and
  \<^verbatim>\<open>writeable\<close> for the page-aligned address. \<open>tlb_install\<close> is the insertion at the end:
  the first invalid slot, or else slot \<^verbatim>\<open>random() % NUM_TLB\<close>, which is undefined with
  no slot at all.
\<close>

definition classify_fault :: "addrspace \<Rightarrow> vaddr_t \<Rightarrow> bool \<times> bool" where
  "classify_fault as faultaddress =
     (case find_region (regions as) faultaddress of
        Some r \<Rightarrow> (True, writeable r \<or> loading as)
      | None \<Rightarrow>
          if faultaddress \<ge> heap_base as \<and> faultaddress < heap_end as then (True, True)
          else if faultaddress \<ge> stack_end as \<and> faultaddress < stack_base as then (True, True)
          else (False, False))"

definition tlb_install :: "kconf \<Rightarrow> nat \<Rightarrow> 32 word \<Rightarrow> 32 word \<Rightarrow> (nat \<Rightarrow> 32 word \<times> 32 word) \<Rightarrow>
    (nat \<Rightarrow> 32 word \<times> 32 word) outcome" where
  "tlb_install K rnd ehi elo t =
     (case tlb_find_invalid K [0..<NUM_TLB K] t of
        Some i \<Rightarrow> Done (t(i := (ehi, elo)))
      | None \<Rightarrow> if NUM_TLB K = 0 then Undefined else Done (t(rnd mod NUM_TLB K := (ehi, elo))))"

text \<open>
  The level-1 and level-2 indices of an address: bits 31..22 and bits 21..12
  (\<^verbatim>\<open>PT_L1_SHIFT\<close>, \<^verbatim>\<open>PT_L2_SHIFT\<close>, \<^verbatim>\<open>PT_INDEX_MASK\<close>).
\<close>

definition pt_l1_index :: "vaddr_t \<Rightarrow> nat" where
  "pt_l1_index a = unat (drop_bit 22 a AND 0x3ff)"

definition pt_l2_index :: "vaddr_t \<Rightarrow> nat" where
  "pt_l2_index a = unat (drop_bit 12 a AND 0x3ff)"

text \<open>
  \<^verbatim>\<open>vm_fault\<close>. \<open>km\<close> says whether \<^verbatim>\<open>kmalloc\<close> of a level-2 table succeeds, \<open>stolen\<close> is
  what \<^verbatim>\<open>ram_stealmem\<close> would return before bootstrap, \<open>rnd\<close> is what \<^verbatim>\<open>random()\<close>
  returns. The content of frames (\<^verbatim>\<open>bzero\<close>) is not modelled. The result is the return
  value and the state after. \<open>vm_fault_page\<close> is the body after the first statement,
  which aligns the fault address to its page.
\<close>

definition vm_fault_page :: "kconf \<Rightarrow> bool \<Rightarrow> paddr_t \<Rightarrow> nat \<Rightarrow> faulttype \<Rightarrow> vaddr_t \<Rightarrow> vm_state \<Rightarrow>
    (errno option \<times> vm_state) outcome" where
  "vm_fault_page K km stolen rnd ftype faultaddress k =
     (case cur_as k of
        None \<Rightarrow> Done (Some EFAULT, k)
      | Some as \<Rightarrow>
          let (in_region, writeable_page) = classify_fault as faultaddress
          in if \<not> in_region then Done (Some EFAULT, k)
             else if ftype = VM_FAULT_READONLY \<and> \<not> writeable_page then Done (Some EFAULT, k)
             else
               let l1 = pt_l1_index faultaddress;
                   l2 = pt_l2_index faultaddress;
                   l2_table_opt = (case pt_l1 as l1 of
                                     Some t \<Rightarrow> Some t
                                   | None \<Rightarrow> if km then Some (\<lambda>i. 0) else None)
               in case l2_table_opt of
                    None \<Rightarrow> Done (Some ENOMEM, k)
                  | Some l2_table \<Rightarrow>
                      let as1 = as\<lparr>pt_l1 := (pt_l1 as)(l1 \<mapsto> l2_table)\<rparr>;
                          (paddr, c1) = (if l2_table l2 = 0 then alloc_page stolen (cm k)
                                         else (l2_table l2, cm k))
                      in if paddr = 0 then Done (Some ENOMEM, k\<lparr>cur_as := Some as1\<rparr>)
                         else
                           let as2 = as1\<lparr>pt_l1 := (pt_l1 as1)(l1 \<mapsto> l2_table(l2 := paddr))\<rparr>;
                               ehi = faultaddress;
                               elo = paddr OR TLBLO_VALID K
                                       OR (if writeable_page then TLBLO_DIRTY K else 0)
                           in obind (tlb_install K rnd ehi elo (tlb k)) (\<lambda>t.
                                Done (None, k\<lparr>cur_as := Some as2, cm := c1, tlb := t\<rparr>)))"

definition vm_fault :: "kconf \<Rightarrow> bool \<Rightarrow> paddr_t \<Rightarrow> nat \<Rightarrow> faulttype \<Rightarrow> vaddr_t \<Rightarrow> vm_state \<Rightarrow>
    (errno option \<times> vm_state) outcome" where
  "vm_fault K km stolen rnd ftype faultaddress k =
     vm_fault_page K km stolen rnd ftype (faultaddress AND PAGE_FRAME) k"

text \<open>
  The frame the page table records for an address (0 when none), as the specification
  describes the two-level lookup.
\<close>

definition pt_lookup :: "addrspace \<Rightarrow> vaddr_t \<Rightarrow> paddr_t" where
  "pt_lookup as a =
     (case pt_l1 as (pt_l1_index a) of
        None \<Rightarrow> 0
      | Some t \<Rightarrow> t (pt_l2_index a))"

text \<open>
  A text segment of one page at \<open>0x400000\<close>, not writeable, in an address space with an
  empty page table; with and without the loading flag; over a coremap of one frame, in
  use or free.
\<close>

definition text_region :: region where
  "text_region = \<lparr>vbase = 0x400000, npages = 1, readable = True, writeable = False,
     executable = True\<rparr>"

definition text_as :: "bool \<Rightarrow> addrspace" where
  "text_as ld = \<lparr>regions = [text_region], pt_l1 = (\<lambda>i. None), heap_base = 0x401000,
     heap_end = 0x401000, stack_base = 0x80000000, stack_end = 0x7ffff000, loading = ld\<rparr>"

definition text_vm :: "bool \<Rightarrow> bool \<Rightarrow> vm_state" where
  "text_vm ld frame_free = \<lparr>cur_as = Some (text_as ld),
     cm = \<lparr>coremap = [\<lparr>free = frame_free, block_size = (if frame_free then 0 else 1)\<rparr>],
            first_paddr = 0x100000, coremap_ready = True\<rparr>,
     tlb = (\<lambda>i. (0, 0))\<rparr>"


section \<open>Open-file objects and the file table\<close>

text \<open>
  \<^verbatim>\<open>struct open_file_handler\<close> of \<^verbatim>\<open>open_file_handler.h\<close>. Objects live in the kernel
  heap, addressed by \<open>fptr\<close>; \<open>ofiles h p = None\<close> means no live object is at \<open>p\<close>.
  \<^verbatim>\<open>off_t\<close> is a signed 64-bit integer, \<^verbatim>\<open>int flags\<close> a 32-bit word. Locks are not
  modelled: every routine here is followed as one thread runs it. \<open>vfs_closed\<close> records
  the vnodes handed to \<^verbatim>\<open>vfs_close\<close>, latest first.
\<close>

type_synonym fptr = nat
type_synonym vnode = nat

record open_file_handler =
  offset :: "64 word"
  flags :: "32 word"
  file_vn :: vnode
  reference_count :: int

record fheap =
  ofiles :: "fptr \<Rightarrow> open_file_handler option"
  vfs_closed :: "vnode list"

text \<open>
  \<^verbatim>\<open>struct file_table\<close>: the array \<^verbatim>\<open>files[__OPEN_MAX]\<close>, \<open>None\<close> for \<^verbatim>\<open>NULL\<close>. Only
  the indices below \<open>OPEN_MAX K\<close> belong to the array: \<open>ft_slot\<close> is the read
  \<^verbatim>\<open>ft->files[i]\<close>, undefined for any other index.
\<close>

type_synonym file_table = "nat \<Rightarrow> fptr option"

definition ft_slot :: "kconf \<Rightarrow> file_table \<Rightarrow> int \<Rightarrow> fptr option outcome" where
  "ft_slot K ft i = (if 0 \<le> i \<and> i < int (OPEN_MAX K) then Done (ft (nat i)) else Undefined)"

text \<open>
  The VFS is external. Its answers are parameters: whether a vnode is seekable, what
  \<^verbatim>\<open>VOP_STAT\<close> returns (an error or \<^verbatim>\<open>st_size\<close>), and what \<^verbatim>\<open>VOP_READ\<close> and
  \<^verbatim>\<open>VOP_WRITE\<close> do with a \<^verbatim>\<open>uio\<close> set up by \<^verbatim>\<open>uio_init\<close> for the user buffer, the
  length and the offset: an error, or the final \<^verbatim>\<open>uio_offset\<close> and \<^verbatim>\<open>uio_resid\<close>.
\<close>

record vfs_ops =
  VOP_ISSEEKABLE :: "vnode \<Rightarrow> bool"
  VOP_STAT :: "vnode \<Rightarrow> errno + 64 word"
  VOP_READ :: "vnode \<Rightarrow> 32 word \<Rightarrow> 32 word \<Rightarrow> 64 word \<Rightarrow> errno + (64 word \<times> 32 word)"
  VOP_WRITE :: "vnode \<Rightarrow> 32 word \<Rightarrow> 32 word \<Rightarrow> 64 word \<Rightarrow> errno + (64 word \<times> 32 word)"

subsection \<open>\<^verbatim>\<open>open_file_handler.c\<close>\<close>

definition create_open_file :: "fptr option \<Rightarrow> vnode \<Rightarrow> 32 word \<Rightarrow> fheap \<Rightarrow> fptr option \<times> fheap" where
  \<comment> \<open>the first argument is what \<^verbatim>\<open>kmalloc\<close> returns; a failing \<^verbatim>\<open>lock_create\<close> is not modelled\<close>
  "create_open_file km vn fl h =
     (case km of
        None \<Rightarrow> (None, h)
      | Some p \<Rightarrow>
          (Some p, h\<lparr>ofiles := (ofiles h)(p \<mapsto>
             \<lparr>offset = 0, flags = fl, file_vn = vn, reference_count = 1\<rparr>)\<rparr>))"

definition open_file_destroy :: "fptr \<Rightarrow> fheap \<Rightarrow> fheap outcome" where
  "open_file_destroy p h =
     (case ofiles h p of
        None \<Rightarrow> Undefined
      | Some f \<Rightarrow> Done (h\<lparr>vfs_closed := file_vn f # vfs_closed h, ofiles := (ofiles h)(p := None)\<rparr>))"

definition open_file_incref :: "fptr \<Rightarrow> fheap \<Rightarrow> fheap outcome" where
  "open_file_incref p h =
     (case ofiles h p of
        None \<Rightarrow> Undefined
      | Some f \<Rightarrow> Done (h\<lparr>ofiles := (ofiles h)(p \<mapsto> f\<lparr>reference_count := reference_count f + 1\<rparr>)\<rparr>))"

definition open_file_decref :: "fptr option \<Rightarrow> fheap \<Rightarrow> fheap outcome" where
  "open_file_decref file h =
     (case file of
        None \<Rightarrow> Done h
      | Some p \<Rightarrow>
          (case ofiles h p of
             None \<Rightarrow> Undefined
           | Some f \<Rightarrow>
               let h1 = h\<lparr>ofiles := (ofiles h)(p \<mapsto> f\<lparr>reference_count := reference_count f - 1\<rparr>)\<rparr>
               in if reference_count f - 1 = 0 then open_file_destroy p h1 else Done h1))"

subsection \<open>\<^verbatim>\<open>file_table.c\<close>\<close>

definition create_file_table :: "bool \<Rightarrow> file_table option" where
  \<comment> \<open>the argument says whether the allocations succeed\<close>
  "create_file_table ok = (if ok then Some (\<lambda>i. None) else None)"

text \<open>
  The loop of \<^verbatim>\<open>destroy_file_table\<close>, over the indices still to visit. Its body stores
  \<^verbatim>\<open>NULL\<close> in the slot and then passes the slot's content, read again, to
  \<^verbatim>\<open>open_file_decref\<close>.
\<close>

fun destroy_file_table_loop :: "kconf \<Rightarrow> nat list \<Rightarrow> file_table \<Rightarrow> fheap \<Rightarrow> (file_table \<times> fheap) outcome" where
  "destroy_file_table_loop K [] ft h = Done (ft, h)"
| "destroy_file_table_loop K (i # is) ft h =
     (if ft i \<noteq> None
      then let ft1 = ft(i := None)
           in obind (ft_slot K ft1 (int i)) (\<lambda>f.
              obind (open_file_decref f h) (\<lambda>h1. destroy_file_table_loop K is ft1 h1))
      else destroy_file_table_loop K is ft h)"

definition destroy_file_table :: "kconf \<Rightarrow> file_table option \<Rightarrow> fheap \<Rightarrow> fheap outcome" where
  \<comment> \<open>the table itself is freed at the end: only the heap remains\<close>
  "destroy_file_table K ftp h =
     (case ftp of
        None \<Rightarrow> Done h
      | Some ft \<Rightarrow> obind (destroy_file_table_loop K [0..<OPEN_MAX K] ft h) (\<lambda>(ft', h'). Done h'))"

fun copy_file_table_loop :: "nat list \<Rightarrow> file_table \<Rightarrow> file_table \<Rightarrow> fheap \<Rightarrow> (file_table \<times> fheap) outcome" where
  "copy_file_table_loop [] ft new_ft h = Done (new_ft, h)"
| "copy_file_table_loop (i # is) ft new_ft h =
     (case ft i of
        Some p \<Rightarrow> obind (open_file_incref p h) (\<lambda>h1. copy_file_table_loop is ft (new_ft(i := Some p)) h1)
      | None \<Rightarrow> copy_file_table_loop is ft new_ft h)"

definition copy_file_table :: "kconf \<Rightarrow> bool \<Rightarrow> file_table \<Rightarrow> fheap \<Rightarrow> (file_table option \<times> fheap) outcome" where
  "copy_file_table K ok ft h =
     (case create_file_table ok of
        None \<Rightarrow> Done (None, h)
      | Some new_ft \<Rightarrow>
          obind (copy_file_table_loop [0..<OPEN_MAX K] ft new_ft h) (\<lambda>(new_ft', h'). Done (Some new_ft', h')))"

subsection \<open>The file system calls\<close>

text \<open>
  Each call takes the file table of the current process and the heap. The result holds
  the return value, what was stored through \<^verbatim>\<open>retval\<close> where the call has one, and
  the table and heap after the call.
\<close>

definition sys_close :: "kconf \<Rightarrow> int \<Rightarrow> file_table \<Rightarrow> fheap \<Rightarrow> (errno option \<times> file_table \<times> fheap) outcome" where
  "sys_close K fd ft h =
     (if fd \<ge> int (OPEN_MAX K) \<or> fd < 0 then Done (Some EBADF, ft, h)
      else obind (ft_slot K ft fd) (\<lambda>f.
        case f of
          None \<Rightarrow> Done (Some EBADF, ft, h)
        | Some p \<Rightarrow>
            let ft1 = ft(nat fd := None)
            in obind (open_file_decref (Some p) h) (\<lambda>h1. Done (None, ft1, h1))))"

definition sys_dup2 :: "kconf \<Rightarrow> int \<Rightarrow> int \<Rightarrow> file_table \<Rightarrow> fheap \<Rightarrow>
    (errno option \<times> int option \<times> file_table \<times> fheap) outcome" where
  "sys_dup2 K oldfd newfd ft h =
     (if oldfd < 0 \<or> newfd < 0 \<or> oldfd \<ge> int (OPEN_MAX K) \<or> newfd \<ge> int (OPEN_MAX K)
      then Done (Some EBADF, None, ft, h)
      else if oldfd = newfd then Done (None, Some newfd, ft, h)
      else obind (ft_slot K ft oldfd) (\<lambda>old_fh.
           obind (ft_slot K ft newfd) (\<lambda>new_fh.
             case old_fh of
               None \<Rightarrow> Done (Some EBADF, None, ft, h)
             | Some p \<Rightarrow>
                 if new_fh = old_fh then Done (None, Some newfd, ft, h)
                 else obind (open_file_incref p h) (\<lambda>h1.
                      obind (if new_fh \<noteq> None
                             then obind (open_file_decref new_fh h1) (\<lambda>h2. Done (ft(nat newfd := None), h2))
                             else Done (ft, h1)) (\<lambda>(ft1, h2).
                        Done (None, Some newfd, ft1(nat newfd := Some p), h2))))))"

definition SEEK_SET :: "32 word" where "SEEK_SET = 0"
definition SEEK_CUR :: "32 word" where "SEEK_CUR = 1"
definition SEEK_END :: "32 word" where "SEEK_END = 2"

definition set_offset :: "fptr \<Rightarrow> 64 word \<Rightarrow> fheap \<Rightarrow> fheap outcome" where
  \<comment> \<open>the store \<^verbatim>\<open>f->offset = v\<close>\<close>
  "set_offset p v h =
     (case ofiles h p of
        None \<Rightarrow> Undefined
      | Some f \<Rightarrow> Done (h\<lparr>ofiles := (ofiles h)(p \<mapsto> f\<lparr>offset := v\<rparr>)\<rparr>))"

definition sys_lseek :: "kconf \<Rightarrow> vfs_ops \<Rightarrow> int \<Rightarrow> 64 word \<Rightarrow> 32 word \<Rightarrow> file_table \<Rightarrow> fheap \<Rightarrow>
    (errno option \<times> 64 word option \<times> fheap) outcome" where
  "sys_lseek K vfs fd pos whence ft h =
     (if fd < 0 \<or> fd \<ge> int (OPEN_MAX K) then Done (Some EBADF, None, h)
      else obind (ft_slot K ft fd) (\<lambda>fo.
        case fo of
          None \<Rightarrow> Done (Some EBADF, None, h)
        | Some p \<Rightarrow>
            obind (open_file_incref p h) (\<lambda>h1.
              case ofiles h1 p of
                None \<Rightarrow> Undefined
              | Some f \<Rightarrow>
                  if \<not> VOP_ISSEEKABLE vfs (file_vn f)
                  then obind (open_file_decref (Some p) h1) (\<lambda>h2. Done (Some ESPIPE, None, h2))
                  else
                    let r = (if whence = SEEK_SET then Inr pos
                             else if whence = SEEK_CUR then Inr (offset f + pos)
                             else if whence = SEEK_END then
                               (case VOP_STAT vfs (file_vn f) of
                                  Inl e \<Rightarrow> Inl e
                                | Inr st_size \<Rightarrow> Inr (st_size + pos))
                             else Inl EINVAL)
                    in case r of
                         Inl e \<Rightarrow> obind (open_file_decref (Some p) h1) (\<lambda>h2. Done (Some e, None, h2))
                       | Inr new_offset \<Rightarrow>
                           if sint new_offset < 0
                           then obind (open_file_decref (Some p) h1) (\<lambda>h2. Done (Some EINVAL, None, h2))
                           else obind (set_offset p new_offset h1) (\<lambda>h2.
                                obind (open_file_decref (Some p) h2) (\<lambda>h3.
                                  Done (None, Some new_offset, h3))))))"

definition sys_read :: "kconf \<Rightarrow> vfs_ops \<Rightarrow> int \<Rightarrow> 32 word \<Rightarrow> 32 word \<Rightarrow> file_table \<Rightarrow> fheap \<Rightarrow>
    (errno option \<times> 32 word option \<times> fheap) outcome" where
  "sys_read K vfs fd buf buflen ft h =
     (if fd \<ge> int (OPEN_MAX K) \<or> fd < 0 then Done (Some EBADF, None, h)
      else obind (ft_slot K ft fd) (\<lambda>fo.
        case fo of
          None \<Rightarrow> Done (Some EBADF, None, h)
        | Some p \<Rightarrow>
            (case ofiles h p of
               None \<Rightarrow> Undefined
             | Some f \<Rightarrow>
                 if flags f AND O_ACCMODE K = O_WRONLY K then Done (Some EBADF, None, h)
                 else obind (open_file_incref p h) (\<lambda>h1.
                   case VOP_READ vfs (file_vn f) buf buflen (offset f) of
                     Inl e \<Rightarrow> obind (open_file_decref (Some p) h1) (\<lambda>h2. Done (Some e, None, h2))
                   | Inr (uio_offset, uio_resid) \<Rightarrow>
                       obind (set_offset p uio_offset h1) (\<lambda>h2.
                       obind (open_file_decref (Some p) h2) (\<lambda>h3.
                         Done (None, Some (buflen - uio_resid), h3)))))))"

definition sys_write :: "kconf \<Rightarrow> vfs_ops \<Rightarrow> int \<Rightarrow> 32 word \<Rightarrow> 32 word \<Rightarrow> file_table \<Rightarrow> fheap \<Rightarrow>
    (errno option \<times> 32 word option \<times> fheap) outcome" where
  "sys_write K vfs fd buf nbytes ft h =
     (if fd < 0 \<or> fd > int (OPEN_MAX K) then Done (Some EBADF, None, h)
      else obind (ft_slot K ft fd) (\<lambda>fo.
        case fo of
          None \<Rightarrow> Done (Some EBADF, None, h)
        | Some p \<Rightarrow>
            (case ofiles h p of
               None \<Rightarrow> Undefined
             | Some f \<Rightarrow>
                 if flags f AND O_ACCMODE K = O_RDONLY K then Done (Some EBADF, None, h)
                 else obind (open_file_incref p h) (\<lambda>h1.
                   case (if flags f AND O_APPEND K \<noteq> 0 then VOP_STAT vfs (file_vn f)
                         else Inr (offset f)) of
                     Inl e \<Rightarrow> obind (open_file_decref (Some p) h1) (\<lambda>h2. Done (Some e, None, h2))
                   | Inr start \<Rightarrow>
                       (case VOP_WRITE vfs (file_vn f) buf nbytes start of
                          Inl e \<Rightarrow> obind (open_file_decref (Some p) h1) (\<lambda>h2. Done (Some e, None, h2))
                        | Inr (uio_offset, uio_resid) \<Rightarrow>
                            obind (set_offset p uio_offset h1) (\<lambda>h2.
                            obind (open_file_decref (Some p) h2) (\<lambda>h3.
                              Done (None, Some (nbytes - uio_resid), h3))))))))"


text \<open>
  The new offset as the specification words it: \<open>pos\<close> taken relative to 0, to the
  current offset or to the size that \<^verbatim>\<open>stat\<close> reports; no offset for any other
  \<open>whence\<close>.
\<close>

definition lseek_new_offset :: "64 word \<Rightarrow> 64 word \<Rightarrow> 64 word \<Rightarrow> 32 word \<Rightarrow> 64 word option" where
  "lseek_new_offset cur st_size pos whence =
     (if whence = SEEK_SET then Some pos
      else if whence = SEEK_CUR then Some (cur + pos)
      else if whence = SEEK_END then Some (st_size + pos)
      else None)"

text \<open>
  A table and a heap to evaluate the calls on: descriptor 3 is the only open one; its
  object, at address 0, is a file of 100 bytes open for writing, referenced once.
  Descriptor 0 of the second table is a console, which is not seekable.
\<close>

definition example_heap :: fheap where
  "example_heap = \<lparr>ofiles = (\<lambda>p. if p = 0
       then Some \<lparr>offset = 0, flags = 1, file_vn = 7, reference_count = 1\<rparr> else None),
     vfs_closed = []\<rparr>"

text \<open>The first heap after descriptor 3 has been duplicated once.\<close>

definition example_heap2 :: fheap where
  "example_heap2 = \<lparr>ofiles = (\<lambda>p. if p = 0
       then Some \<lparr>offset = 0, flags = 1, file_vn = 7, reference_count = 2\<rparr> else None),
     vfs_closed = []\<rparr>"

definition example_ft :: file_table where
  "example_ft = (\<lambda>i. if i = 3 then Some 0 else None)"

definition example_vfs :: vfs_ops where
  "example_vfs = \<lparr>VOP_ISSEEKABLE = (\<lambda>v. v = 7),
     VOP_STAT = (\<lambda>v. Inr 100),
     VOP_READ = (\<lambda>v buf len off. Inr (off, len)),
     VOP_WRITE = (\<lambda>v buf len off. Inr (off + ucast len, 0))\<rparr>"

definition console_heap :: fheap where
  "console_heap = \<lparr>ofiles = (\<lambda>p. if p = 0
       then Some \<lparr>offset = 0, flags = 0, file_vn = 2, reference_count = 1\<rparr> else None),
     vfs_closed = []\<rparr>"

definition console_ft :: file_table where
  "console_ft = (\<lambda>i. if i = 0 then Some 0 else None)"

text \<open>The first heap with the object's offset set to a given value.\<close>

definition example_heap_at :: "64 word \<Rightarrow> fheap" where
  "example_heap_at off = \<lparr>ofiles = (\<lambda>p. if p = 0
       then Some \<lparr>offset = off, flags = 1, file_vn = 7, reference_count = 1\<rparr> else None),
     vfs_closed = []\<rparr>"


section \<open>Processes and the PID table\<close>

text \<open>
  The fields of \<^verbatim>\<open>struct proc\<close> that PID management and the exit/wait rendezvous use
  (\<^verbatim>\<open>proc.c\<close>, \<^verbatim>\<open>exit_syscall.c\<close>, \<^verbatim>\<open>waitpid_syscall.c\<close>). \<^verbatim>\<open>pid_t\<close> is an integer. The
  state holds the heap of proc structures (addressed by \<open>pptr\<close>), the array
  \<^verbatim>\<open>pid_table[__PID_MAX]\<close> and \<^verbatim>\<open>kproc\<close>. The wait lock and condition variable are
  not modelled; a caller that would sleep on the condition variable ends \<open>Blocked\<close>.
\<close>

type_synonym pptr = nat

record proc =
  p_name :: string
  p_pid :: int
  p_parent :: int
  p_exitcode :: "32 word"
  p_exited :: bool

record pid_state =
  procs :: "pptr \<Rightarrow> proc option"
  pid_table :: "nat \<Rightarrow> pptr option"
  kproc :: "pptr option"

text \<open>
  The loop of \<^verbatim>\<open>proc_allocpid\<close> over the candidate PIDs, lowest first: \<open>Some\<close> of
  the PID assigned and the table after, or \<open>None\<close> when the loop runs to its end.
\<close>

fun proc_allocpid_loop :: "nat list \<Rightarrow> pptr \<Rightarrow> (nat \<Rightarrow> pptr option) \<Rightarrow> (nat \<times> (nat \<Rightarrow> pptr option)) option" where
  "proc_allocpid_loop [] p tbl = None"
| "proc_allocpid_loop (i # is) p tbl =
     (if tbl i = None then Some (i, tbl(i := Some p)) else proc_allocpid_loop is p tbl)"

definition proc_allocpid :: "kconf \<Rightarrow> pptr \<Rightarrow> pid_state \<Rightarrow> int \<times> pid_state" where
  "proc_allocpid K p s =
     (case proc_allocpid_loop [PID_MIN K..<PID_MAX K] p (pid_table s) of
        Some (i, tbl) \<Rightarrow> (int i, s\<lparr>pid_table := tbl\<rparr>)
      | None \<Rightarrow> (ENPROC_value K, s))"

definition proc_get :: "kconf \<Rightarrow> int \<Rightarrow> pid_state \<Rightarrow> pptr option" where
  "proc_get K pid s =
     (if pid \<ge> int (PID_MIN K) \<and> pid < int (PID_MAX K) then pid_table s (nat pid) else None)"

definition proc_freepid :: "kconf \<Rightarrow> int \<Rightarrow> pid_state \<Rightarrow> pid_state outcome" where
  \<comment> \<open>the store \<^verbatim>\<open>pid_table[pid] = NULL\<close>, which the source does not guard\<close>
  "proc_freepid K pid s =
     (if 0 \<le> pid \<and> pid < int (PID_MAX K)
      then Done (s\<lparr>pid_table := (pid_table s)(nat pid := None)\<rparr>)
      else Undefined)"

text \<open>
  \<^verbatim>\<open>proc_create\<close>. The first two arguments are what \<^verbatim>\<open>kmalloc\<close> returns for the
  structure and whether \<^verbatim>\<open>kstrdup\<close> succeeds. The result is the pointer returned
  (\<open>None\<close> for \<^verbatim>\<open>NULL\<close>) and the state after.
\<close>

definition proc_create :: "kconf \<Rightarrow> pptr option \<Rightarrow> bool \<Rightarrow> string \<Rightarrow> pid_state \<Rightarrow> pptr option \<times> pid_state" where
  "proc_create K km ks name s =
     (case km of
        None \<Rightarrow> (None, s)
      | Some p \<Rightarrow>
          if \<not> ks then (None, s)
          else
            let (pid, s1) = (if name \<noteq> ''[kernel]'' then proc_allocpid K p s else (1, s))
            in (Some p, s1\<lparr>procs := (procs s1)(p \<mapsto>
                  \<lparr>p_name = name, p_pid = pid, p_parent = - 1, p_exitcode = 0,
                   p_exited = False\<rparr>)\<rparr>))"

text \<open>
  \<^verbatim>\<open>proc_destroy\<close>, as far as this state goes: the assertion that the process is not
  \<^verbatim>\<open>kproc\<close>, the release of the PID slot and the freeing of the structure. Its other
  steps release the working directory, the address space (\<open>as_destroy\<close>) and the file
  table (\<open>destroy_file_table\<close>), which live in other parts of the kernel state.
\<close>

definition proc_destroy :: "kconf \<Rightarrow> pptr \<Rightarrow> pid_state \<Rightarrow> pid_state outcome" where
  "proc_destroy K p s =
     (if kproc s = Some p then Panic
      else case procs s p of
             None \<Rightarrow> Undefined
           | Some pr \<Rightarrow>
               obind (proc_freepid K (p_pid pr) s) (\<lambda>s1.
                 Done (s1\<lparr>procs := (procs s1)(p := None)\<rparr>)))"

text \<open>
  \<^verbatim>\<open>sys__exit\<close>, for the current process \<open>cur\<close>, up to the call of \<^verbatim>\<open>thread_exit\<close>
  (which does not return).
\<close>

definition sys__exit :: "kconf \<Rightarrow> 32 word \<Rightarrow> pptr \<Rightarrow> pid_state \<Rightarrow> pid_state outcome" where
  "sys__exit K code cur s =
     (case procs s cur of
        None \<Rightarrow> Undefined
      | Some pr \<Rightarrow>
          Done (s\<lparr>procs := (procs s)(cur \<mapsto>
            pr\<lparr>p_exitcode := MKWAIT_EXIT K (code AND 0xff), p_exited := True\<rparr>)\<rparr>))"

text \<open>
  \<^verbatim>\<open>sys_waitpid\<close>, for the current process \<open>cur\<close>. User memory is a value of any type
  \<open>'u\<close>; \<open>copyout a v u\<close> is the external \<^verbatim>\<open>copyout\<close> of the integer \<open>v\<close> to the user
  address \<open>a\<close>: an error, or the user memory after the copy. The result holds the
  return value, what was stored through \<^verbatim>\<open>retval\<close>, and the state and the user
  memory after the call.
\<close>

definition sys_waitpid :: "kconf \<Rightarrow> (32 word \<Rightarrow> 32 word \<Rightarrow> 'u \<Rightarrow> errno + 'u) \<Rightarrow> int \<Rightarrow> 32 word \<Rightarrow> 32 word \<Rightarrow>
    pptr \<Rightarrow> pid_state \<Rightarrow> 'u \<Rightarrow> (errno option \<times> int option \<times> pid_state \<times> 'u) outcome" where
  "sys_waitpid K copyout pid status options cur s u =
     (if options \<noteq> 0 then Done (Some EINVAL, None, s, u)
      else case proc_get K pid s of
             None \<Rightarrow> Done (Some ESRCH, None, s, u)
           | Some c \<Rightarrow>
               (case (procs s c, procs s cur) of
                  (Some child, Some me) \<Rightarrow>
                    if p_parent child \<noteq> p_pid me then Done (Some ECHILD, None, s, u)
                    else if \<not> p_exited child then Blocked
                    else
                      let exitcode = p_exitcode child
                      in (case (if status \<noteq> 0 then copyout status exitcode u else Inr u) of
                            Inl err \<Rightarrow> Done (Some err, None, s, u)
                          | Inr u' \<Rightarrow>
                              obind (proc_destroy K c s) (\<lambda>s'. Done (None, Some pid, s', u')))
                | _ \<Rightarrow> Undefined))"


text \<open>Every PID slot is taken (all by the process at address 0).\<close>

definition full_pids :: pid_state where
  "full_pids = \<lparr>procs = (\<lambda>p. if p = 0
       then Some \<lparr>p_name = ''sh'', p_pid = 2, p_parent = - 1, p_exitcode = 0, p_exited = False\<rparr>
       else None),
     pid_table = (\<lambda>i. Some 0), kproc = None\<rparr>"

text \<open>
  A parent at address 4 with PID 2 and its child at address 3 with PID 3; the child has
  not exited yet.
\<close>

definition wait_state :: pid_state where
  "wait_state = \<lparr>procs = (\<lambda>p.
       if p = 4 then Some \<lparr>p_name = ''parent'', p_pid = 2, p_parent = - 1, p_exitcode = 0, p_exited = False\<rparr>
       else if p = 3 then Some \<lparr>p_name = ''parent'', p_pid = 3, p_parent = 2, p_exitcode = 0, p_exited = False\<rparr>
       else None),
     pid_table = (\<lambda>i. if i = 2 then Some 4 else if i = 3 then Some 3 else None),
     kproc = Some 0\<rparr>"

text \<open>The same state after the child has called \<open>_exit(7)\<close>.\<close>

definition exited_state :: pid_state where
  "exited_state = \<lparr>procs = (\<lambda>p.
       if p = 4 then Some \<lparr>p_name = ''parent'', p_pid = 2, p_parent = - 1, p_exitcode = 0, p_exited = False\<rparr>
       else if p = 3 then Some \<lparr>p_name = ''parent'', p_pid = 3, p_parent = 2, p_exitcode = 28, p_exited = True\<rparr>
       else None),
     pid_table = (\<lambda>i. if i = 2 then Some 4 else if i = 3 then Some 3 else None),
     kproc = Some 0\<rparr>"

text \<open>And after the parent has reaped the child.\<close>

definition reaped_state :: pid_state where
  "reaped_state = \<lparr>procs = (\<lambda>p.
       if p = 4 then Some \<lparr>p_name = ''parent'', p_pid = 2, p_parent = - 1, p_exitcode = 0, p_exited = False\<rparr>
       else None),
     pid_table = (\<lambda>i. if i = 2 then Some 4 else None),
     kproc = Some 0\<rparr>"

text \<open>
  Two behaviours of \<^verbatim>\<open>copyout\<close>: one stores the integer in a user memory that maps
  addresses to integers, one rejects every address (on any user memory).
\<close>

definition copyout_ok :: "32 word \<Rightarrow> 32 word \<Rightarrow> (32 word \<Rightarrow> 32 word) \<Rightarrow> errno + (32 word \<Rightarrow> 32 word)" where
  "copyout_ok a v u = Inr (u(a := v))"

definition copyout_efault :: "32 word \<Rightarrow> 32 word \<Rightarrow> 'u \<Rightarrow> errno + 'u" where
  "copyout_efault a v u = Inl EFAULT"


section \<open>execv (\<^verbatim>\<open>execv_syscall.c\<close>)\<close>

text \<open>
  The state \<open>sys_execv\<close> works on: the VM state, with the address space of the calling
  process, and the caller's other observable fields: its proc structure (PID, parent
  link), its file table and its working directory; and the vnodes handed to
  \<^verbatim>\<open>vfs_close\<close>.
\<close>

record exec_state =
  vm :: vm_state
  cur_proc :: proc
  cur_file_table :: "file_table option"
  cur_cwd :: "vnode option"
  exec_closed :: "vnode list"

text \<open>
  The external routines, as parameters. \<open>copyinstr a n\<close>, \<open>copyin_ptr a\<close> and
  \<open>copyin_char a\<close> read the caller's user memory at address \<open>a\<close>: a string of at most
  \<open>n\<close> bytes with its terminator (returned without it), a pointer, a byte; each may fail.
  \<open>kmalloc_ok i\<close> says whether the \<open>i\<close>-th \<^verbatim>\<open>kmalloc\<close> of the routine succeeds (0 the
  scratch buffer, 1 \<^verbatim>\<open>kargv\<close>, 2 \<^verbatim>\<open>kargs_block\<close>, 3 the address space, 4
  \<^verbatim>\<open>arg_pointers\<close>). \<open>load_elf\<close> and the two \<^verbatim>\<open>copyout\<close>s act on the current address
  space, the coremap and the TLB (they define regions and take page faults there) and
  return them changed in any way, with an error or, for \<open>load_elf\<close>, the entry point.
\<close>

type_synonym uvm = "addrspace \<times> coremap_state \<times> (nat \<Rightarrow> 32 word \<times> 32 word)"



text \<open>
  \<^verbatim>\<open>proc_setas\<close> and \<^verbatim>\<open>as_activate\<close> on this state, and an external routine run on the
  current address space.
\<close>

definition proc_setas :: "addrspace option \<Rightarrow> exec_state \<Rightarrow> addrspace option \<times> exec_state" where
  "proc_setas newas s = (cur_as (vm s), s\<lparr>vm := (vm s)\<lparr>cur_as := newas\<rparr>\<rparr>)"

definition exec_activate :: "kconf \<Rightarrow> exec_state \<Rightarrow> exec_state" where
  "exec_activate K s = s\<lparr>vm := as_activate K (vm s)\<rparr>"

definition set_uvm :: "uvm \<Rightarrow> exec_state \<Rightarrow> exec_state" where
  "set_uvm u s = (case u of (as, c, t) \<Rightarrow> s\<lparr>vm := \<lparr>cur_as = Some as, cm = c, tlb = t\<rparr>\<rparr>)"











text \<open>
  What of the caller \<open>sys_execv\<close> must leave alone on failure, apart from the address
  space: the proc structure (PID, parent link), the file table and the working directory.
\<close>

definition same_caller :: "exec_state \<Rightarrow> exec_state \<Rightarrow> bool" where
  "same_caller s s' \<longleftrightarrow>
     cur_proc s' = cur_proc s \<and> cur_file_table s' = cur_file_table s \<and> cur_cwd s' = cur_cwd s"




section \<open>Properties of sbrk\<close>

lemma sint_mod: 
  fixes b :: "32 word"
  shows "sint b mod 2 ^ 32 = uint b"
  using uint_sint[of b] by (simp add: take_bit_eq_mod)

lemma uint_add_sint:
  fixes a b :: "32 word"
  shows "uint (a + b) = (uint a + sint b) mod 2 ^ 32"
proof -
  have "(uint a + sint b) mod 2 ^ 32 = (uint a + sint b mod 2 ^ 32) mod 2 ^ 32"
    by (simp add: mod_add_right_eq)
  also have "\<dots> = (uint a + uint b) mod 2 ^ 32"
    by (simp only: sint_mod)
  also have "\<dots> = uint (a + b)"
    by (simp add: uint_word_ariths)
  finally show ?thesis by simp
qed

lemma sint_range32:
  fixes b :: "32 word"
  shows "- 2147483648 \<le> sint b" "sint b < 2147483648"
  using sint_ge[of b] sint_lt[of b] by simp_all

lemma uint_range32:
  fixes b :: "32 word"
  shows "0 \<le> uint b" "uint b < 4294967296"
  using uint_lt2p[of b] by simp_all

lemma pow32: "(2::int) ^ 32 = 4294967296"
  by simp

lemma sbrk_nowrap_uint:
  fixes old_end amount :: "32 word"
  assumes "\<not> sbrk_wraps old_end amount"
  shows "uint (old_end + amount) = uint old_end + sint amount"
  using assms unfolding sbrk_wraps_def uint_add_sint
  by (simp add: not_less not_le)

lemma sbrk_wrap_check:
  fixes old_end amount :: "32 word"
  assumes "amount \<noteq> 0"
  shows "((0 < sint amount \<and> old_end + amount < old_end) \<or> (sint amount < 0 \<and> old_end + amount > old_end))
         \<longleftrightarrow> sbrk_wraps old_end amount"
proof (cases "sbrk_wraps old_end amount")
  case False
  have nz: "sint amount \<noteq> 0" using assms by (simp add: signed_eq_0_iff)
  from False show ?thesis
    using sbrk_nowrap_uint[OF False] nz
    by (auto simp: word_less_def)
next
  case True
  then consider (neg) "uint old_end + sint amount < 0" | (big) "2 ^ 32 \<le> uint old_end + sint amount"
    by (auto simp: sbrk_wraps_def)
  then show ?thesis
  proof cases
    case neg
    have s: "sint amount < 0" using neg uint_range32(1)[of old_end] by linarith
    have "uint (old_end + amount) = uint old_end + sint amount + 2 ^ 32"
    proof -
      let ?x = "uint old_end + sint amount"
      have "?x mod 2 ^ 32 = (?x + 2 ^ 32) mod 2 ^ 32" by simp
      also have "\<dots> = ?x + 2 ^ 32"
        using neg sint_range32(1)[of amount] uint_range32[of old_end]
        unfolding pow32 by (intro mod_pos_pos_trivial) linarith+
      finally show ?thesis by (simp only: uint_add_sint)
    qed
    then have "old_end < old_end + amount"
      using sint_range32(1)[of amount] unfolding word_less_def pow32 by linarith
    with s True show ?thesis by simp
  next
    case big
    have s: "0 < sint amount" using big uint_range32(2)[of old_end] unfolding pow32 by linarith
    have "uint (old_end + amount) = uint old_end + sint amount - 2 ^ 32"
    proof -
      let ?x = "uint old_end + sint amount"
      have "?x mod 2 ^ 32 = (?x - 2 ^ 32) mod 2 ^ 32" by simp
      also have "\<dots> = ?x - 2 ^ 32"
        using big sint_range32(2)[of amount] uint_range32[of old_end]
        unfolding pow32 by (intro mod_pos_pos_trivial) linarith+
      finally show ?thesis by (simp only: uint_add_sint)
    qed
    then have "old_end + amount < old_end"
      using sint_range32(2)[of amount] unfolding word_less_def pow32 by linarith
    with s True show ?thesis by simp
  qed
qed

lemma sys_sbrk_cases:
  fixes amount :: "32 word"
  assumes as: "cur_as k = Some as"
  defines "old \<equiv> heap_end as"
  defines "exact \<equiv> uint (heap_end as) + sint amount"
  shows "fst (snd (sys_sbrk amount k)) = Some old"
    and "amount = 0 \<Longrightarrow> sys_sbrk amount k = (None, Some old, k)"
    and "sbrk_wraps old amount \<Longrightarrow> sys_sbrk amount k = (Some ENOMEM, Some old, k)"
    and "\<not> sbrk_wraps old amount \<Longrightarrow> amount \<noteq> 0 \<Longrightarrow> exact < uint (heap_base as) \<Longrightarrow>
           sys_sbrk amount k = (Some EINVAL, Some old, k)"
    and "\<not> sbrk_wraps old amount \<Longrightarrow> amount \<noteq> 0 \<Longrightarrow> uint (heap_base as) \<le> exact \<Longrightarrow>
           uint (stack_end as) \<le> exact \<Longrightarrow>
           sys_sbrk amount k = (Some ENOMEM, Some old, k)"
    and "\<not> sbrk_wraps old amount \<Longrightarrow> amount \<noteq> 0 \<Longrightarrow> uint (heap_base as) \<le> exact \<Longrightarrow>
           exact < uint (stack_end as) \<Longrightarrow>
           sys_sbrk amount k = (None, Some old, k\<lparr>cur_as := Some (as\<lparr>heap_end := old + amount\<rparr>)\<rparr>)
           \<and> uint (old + amount) = exact"
    and "fst (sys_sbrk amount k) \<noteq> None \<Longrightarrow> snd (snd (sys_sbrk amount k)) = k"
    and "cm (snd (snd (sys_sbrk amount k))) = cm k"
    and "tlb (snd (snd (sys_sbrk amount k))) = tlb k"
    and "\<exists>as'. cur_as (snd (snd (sys_sbrk amount k))) = Some as' \<and> pt_l1 as' = pt_l1 as"
proof -
  have w0: "\<not> sbrk_wraps old 0"
    using uint_range32[of old] by (simp add: sbrk_wraps_def)
  show "fst (snd (sys_sbrk amount k)) = Some old"
    using as by (simp add: sys_sbrk_def Let_def old_def)
  show "amount = 0 \<Longrightarrow> sys_sbrk amount k = (None, Some old, k)"
    using as by (simp add: sys_sbrk_def Let_def old_def)
  show "sbrk_wraps old amount \<Longrightarrow> sys_sbrk amount k = (Some ENOMEM, Some old, k)"
  proof -
    assume w: "sbrk_wraps old amount"
    then have nz: "amount \<noteq> 0" using w0 by auto
    from sbrk_wrap_check[OF nz, of old] w
    show ?thesis using as nz by (simp add: sys_sbrk_def Let_def old_def)
  qed
  show "cm (snd (snd (sys_sbrk amount k))) = cm k"
    using as by (simp add: sys_sbrk_def Let_def)
  show "tlb (snd (snd (sys_sbrk amount k))) = tlb k"
    using as by (simp add: sys_sbrk_def Let_def)
  show "\<exists>as'. cur_as (snd (snd (sys_sbrk amount k))) = Some as' \<and> pt_l1 as' = pt_l1 as"
    using as by (simp add: sys_sbrk_def Let_def)
  show "fst (sys_sbrk amount k) \<noteq> None \<Longrightarrow> snd (snd (sys_sbrk amount k)) = k"
    using as by (auto simp add: sys_sbrk_def Let_def split: if_splits)
  {
    assume nw: "\<not> sbrk_wraps old amount" and nz: "amount \<noteq> 0"
    have chk: "\<not> ((0 < sint amount \<and> old + amount < old) \<or> (sint amount < 0 \<and> old + amount > old))"
      using sbrk_wrap_check[OF nz, of old] nw by simp
    have ex: "uint (old + amount) = exact"
      using sbrk_nowrap_uint[OF nw] by (simp add: exact_def old_def)
    {
      assume "exact < uint (heap_base as)"
      then have "old + amount < heap_base as" using ex by (simp add: word_less_def)
      then show "sys_sbrk amount k = (Some EINVAL, Some old, k)"
        using as nz chk by (simp add: sys_sbrk_def Let_def old_def)
    }
    {
      assume "uint (heap_base as) \<le> exact" "uint (stack_end as) \<le> exact"
      then have "\<not> old + amount < heap_base as" "stack_end as \<le> old + amount"
        using ex by (simp_all add: word_less_def word_le_def)
      then show "sys_sbrk amount k = (Some ENOMEM, Some old, k)"
        using as nz chk by (simp add: sys_sbrk_def Let_def old_def)
    }
    {
      assume "uint (heap_base as) \<le> exact" "exact < uint (stack_end as)"
      then have "\<not> old + amount < heap_base as" "\<not> stack_end as \<le> old + amount"
        using ex by (simp_all add: word_less_def word_le_def)
      then show "sys_sbrk amount k = (None, Some old, k\<lparr>cur_as := Some (as\<lparr>heap_end := old + amount\<rparr>)\<rparr>)
           \<and> uint (old + amount) = exact"
        using as nz chk ex by (simp add: sys_sbrk_def Let_def old_def)
    }
  }
qed

text \<open>
  Claim C6, amended. For a process with an address space, \<open>sys_sbrk amount\<close> stores the
  pre-call \<open>heap_end\<close> as its result value on every path. With \<open>amount = 0\<close> nothing
  changes. The wrap-around test comes first: if the exact sum of \<open>heap_end\<close> and the
  signed amount leaves the 32-bit range, the call returns \<open>ENOMEM\<close>; this includes every
  shrink whose exact new end is below address 0 (and so below \<open>heap_base\<close>). Only when
  the sum does not wrap: if the new end is below \<open>heap_base\<close> the call returns \<open>EINVAL\<close>;
  if it reaches \<open>stack_end\<close> it returns \<open>ENOMEM\<close>; else it succeeds and \<open>heap_end\<close>
  becomes exactly the old \<open>heap_end\<close> plus the amount. Every failure leaves the state
  unchanged, and no path touches the coremap, the TLB or the page table, so no physical
  frame is allocated.
\<close>

theorem sys_sbrk_spec:
  assumes "cur_as k = Some as"
  shows "fst (snd (sys_sbrk amount k)) = Some (heap_end as)
    \<and> (amount = 0 \<longrightarrow> sys_sbrk amount k = (None, Some (heap_end as), k))
    \<and> (sbrk_wraps (heap_end as) amount \<longrightarrow>
          sys_sbrk amount k = (Some ENOMEM, Some (heap_end as), k))
    \<and> (uint (heap_end as) + sint amount < 0 \<longrightarrow>
          uint (heap_end as) + sint amount < uint (heap_base as)
          \<and> sys_sbrk amount k = (Some ENOMEM, Some (heap_end as), k))
    \<and> (\<not> sbrk_wraps (heap_end as) amount \<and> amount \<noteq> 0
          \<and> uint (heap_end as) + sint amount < uint (heap_base as) \<longrightarrow>
          sys_sbrk amount k = (Some EINVAL, Some (heap_end as), k))
    \<and> (\<not> sbrk_wraps (heap_end as) amount \<and> amount \<noteq> 0
          \<and> uint (heap_base as) \<le> uint (heap_end as) + sint amount
          \<and> uint (stack_end as) \<le> uint (heap_end as) + sint amount \<longrightarrow>
          sys_sbrk amount k = (Some ENOMEM, Some (heap_end as), k))
    \<and> (\<not> sbrk_wraps (heap_end as) amount \<and> amount \<noteq> 0
          \<and> uint (heap_base as) \<le> uint (heap_end as) + sint amount
          \<and> uint (heap_end as) + sint amount < uint (stack_end as) \<longrightarrow>
          sys_sbrk amount k =
            (None, Some (heap_end as), k\<lparr>cur_as := Some (as\<lparr>heap_end := heap_end as + amount\<rparr>)\<rparr>)
          \<and> uint (heap_end as + amount) = uint (heap_end as) + sint amount)
    \<and> (fst (sys_sbrk amount k) \<noteq> None \<longrightarrow> snd (snd (sys_sbrk amount k)) = k)
    \<and> cm (snd (snd (sys_sbrk amount k))) = cm k
    \<and> tlb (snd (snd (sys_sbrk amount k))) = tlb k
    \<and> (\<exists>as'. cur_as (snd (snd (sys_sbrk amount k))) = Some as' \<and> pt_l1 as' = pt_l1 as)"
proof -
  have below: "uint (heap_end as) + sint amount < uint (heap_base as)"
    if "uint (heap_end as) + sint amount < 0"
    using that uint_range32(1)[of "heap_base as"] by linarith
  have wraps: "sbrk_wraps (heap_end as) amount"
    if "uint (heap_end as) + sint amount < 0"
    using that by (simp add: sbrk_wraps_def)
  show ?thesis
    using sys_sbrk_cases[OF assms, of amount] below wraps by blast
qed

text \<open>
  Claim C6 as stated fails: on a heap from \<open>0x400000\<close> to \<open>0x401000\<close>, a shrink by
  \<open>0x402000\<close> would put the new end at \<open>- 0x1000\<close>, below \<open>heap_base\<close>, and the call
  returns \<open>ENOMEM\<close> from the wrap-around test, not \<open>EINVAL\<close>.
\<close>

theorem sys_sbrk_shrink_below_zero:
  "cur_as example_vm = Some example_as
   \<and> heap_base example_as = 0x400000 \<and> heap_end example_as = 0x401000
   \<and> uint (heap_end example_as) + sint (- 0x402000 :: 32 word) = - 0x1000
   \<and> uint (heap_end example_as) + sint (- 0x402000 :: 32 word) < uint (heap_base example_as)
   \<and> sys_sbrk (- 0x402000) example_vm = (Some ENOMEM, Some 0x401000, example_vm)
   \<and> sys_sbrk (- 0x402000) example_vm \<noteq> (Some EINVAL, Some 0x401000, example_vm)"
proof -
  have a: "cur_as example_vm = Some example_as"
    by (simp add: example_vm_def)
  have h: "heap_end example_as = 0x401000" "heap_base example_as = 0x400000"
    by (simp_all add: example_as_def)
  have s: "sint (- 0x402000 :: 32 word) = - 0x402000"
    by simp
  have r: "sys_sbrk (- 0x402000) example_vm = (Some ENOMEM, Some 0x401000, example_vm)"
    by (simp add: sys_sbrk_def a h Let_def)
  show ?thesis
    by (simp add: a h s r)
qed

text \<open>
  The theorem at a concrete address space (\<open>heap_base = 0x400000\<close>, \<open>heap_end = 0x401000\<close>,
  \<open>stack_end = 0x7ffff000\<close>): a query, a growth, a shrink, a shrink below the base, a
  collision with the stack, and a shrink below address 0.
\<close>

theorem sys_sbrk_spec_witness:
  "cur_as example_vm = Some example_as
   \<and> sys_sbrk 0 example_vm = (None, Some 0x401000, example_vm)
   \<and> sys_sbrk 4096 example_vm =
       (None, Some 0x401000, example_vm\<lparr>cur_as := Some (example_as\<lparr>heap_end := 0x402000\<rparr>)\<rparr>)
   \<and> sys_sbrk (- 4096) example_vm =
       (None, Some 0x401000, example_vm\<lparr>cur_as := Some (example_as\<lparr>heap_end := 0x400000\<rparr>)\<rparr>)
   \<and> sys_sbrk (- 4097) example_vm = (Some EINVAL, Some 0x401000, example_vm)
   \<and> sys_sbrk 0x7fc00000 example_vm = (Some ENOMEM, Some 0x401000, example_vm)
   \<and> sbrk_wraps (heap_end example_as) (- 0x402000)
   \<and> sys_sbrk (- 0x402000) example_vm = (Some ENOMEM, Some 0x401000, example_vm)"
proof -
  have a: "cur_as example_vm = Some example_as"
    by (simp add: example_vm_def)
  have h: "heap_end example_as = 0x401000" "heap_base example_as = 0x400000"
    "stack_end example_as = 0x7ffff000"
    by (simp_all add: example_as_def)
  show ?thesis
    using a sys_sbrk_spec[OF a, of 0] sys_sbrk_spec[OF a, of 4096]
      sys_sbrk_spec[OF a, of "- 4096"] sys_sbrk_spec[OF a, of "- 4097"]
      sys_sbrk_spec[OF a, of "0x7fc00000"] sys_sbrk_spec[OF a, of "- 0x402000"]
    by (simp add: h sbrk_wraps_def)
qed

section \<open>Properties of the physical allocator\<close>

text \<open>
  With at least one page requested, every operation of the allocator keeps the shape and
  the accounting equation: \<open>vm_bootstrap_inv\<close>, \<open>alloc_page_inv\<close>, \<open>alloc_kpages_inv\<close>,
  \<open>free_page_inv\<close>, \<open>free_kpages_inv\<close>. On such a coremap \<open>free_kpages\<close> stays inside the
  array and frees exactly the \<open>block_size\<close> frames from the head on
  (\<open>free_kpages_frees_block\<close>, \<open>free_kpages_in_bounds\<close>).
\<close>

lemma coremap_ok_iff:
  "coremap_ok cmap \<longleftrightarrow>
     (\<forall>i<length cmap. (free (cmap ! i) \<longrightarrow> block_size (cmap ! i) = 0)
        \<and> i + block_size (cmap ! i) \<le> length cmap
        \<and> (\<forall>j. 0 < j \<and> j < block_size (cmap ! i) \<longrightarrow>
              \<not> free (cmap ! (i + j)) \<and> block_size (cmap ! (i + j)) = 0))"
  by (auto simp add: coremap_ok_def list_all_iff)

lemma mark_interior_length [simp]: "length (mark_interior i js cmap) = length cmap"
  by (induction js arbitrary: cmap) simp_all

lemma mark_interior_nth:
  "k < length cmap \<Longrightarrow>
   mark_interior i js cmap ! k =
     (if \<exists>j\<in>set js. k = i + j then \<lparr>free = False, block_size = 0\<rparr> else cmap ! k)"
  by (induction js arbitrary: cmap) (auto simp add: nth_list_update)

lemma run_ok_iff:
  "run_ok i j np cmap \<longleftrightarrow> (\<forall>l. j \<le> l \<and> l < np \<longrightarrow> i + l < length cmap \<and> free (cmap ! (i + l)))"
proof (induction i j np cmap rule: run_ok.induct)
  case (1 i j np cmap)
  let ?P = "\<lambda>l. i + l < length cmap \<and> free (cmap ! (i + l))"
  show ?case
  proof (cases "j < np")
    case False
    then have "run_ok i j np cmap" by (subst run_ok.simps) (simp del: run_ok.simps)
    moreover have "\<forall>l. j \<le> l \<and> l < np \<longrightarrow> ?P l"
      using False by auto
    ultimately show ?thesis by blast
  next
    case True
    show ?thesis
    proof (cases "?P j")
      case bad: False
      with True have "\<not> run_ok i j np cmap"
        by (subst run_ok.simps) (auto simp add: not_le simp del: run_ok.simps)
      moreover have "\<not> (\<forall>l. j \<le> l \<and> l < np \<longrightarrow> ?P l)"
        using bad True by blast
      ultimately show ?thesis by blast
    next
      case good: True
      have "run_ok i j np cmap = run_ok i (Suc j) np cmap"
        using True good by (subst run_ok.simps) (simp del: run_ok.simps)
      also have "\<dots> \<longleftrightarrow> (\<forall>l. Suc j \<le> l \<and> l < np \<longrightarrow> ?P l)"
        using "1.IH"[OF True] good by (simp del: run_ok.simps)
      also have "\<dots> \<longleftrightarrow> (\<forall>l. j \<le> l \<and> l < np \<longrightarrow> ?P l)"
      proof (intro iffI allI impI)
        fix l assume a: "\<forall>l. Suc j \<le> l \<and> l < np \<longrightarrow> ?P l" and b: "j \<le> l \<and> l < np"
        show "?P l"
        proof (cases "l = j")
          case True
          with good show ?thesis by simp
        next
          case False
          with b have "Suc j \<le> l" by simp
          with a b show ?thesis by blast
        qed
      next
        fix l assume a: "\<forall>l. j \<le> l \<and> l < np \<longrightarrow> ?P l" and b: "Suc j \<le> l \<and> l < np"
        then have "j \<le> l \<and> l < np" by simp
        with a show "?P l" by blast
      qed
      finally show ?thesis .
    qed
  qed
qed

lemma alloc_kpages_scan_Some:
  "alloc_kpages_scan i np cmap = Some k \<Longrightarrow>
     k < length cmap \<and> free (cmap ! k) \<and> run_ok k 0 np cmap"
proof (induction i np cmap rule: alloc_kpages_scan.induct)
  case (1 i np cmap)
  note [simp del] = run_ok.simps alloc_kpages_scan.simps
  from "1.prems" have lt: "i < length cmap"
    by (subst (asm) alloc_kpages_scan.simps) (simp split: if_splits)
  show ?case
  proof (cases "free (cmap ! i)")
    case nf: False
    with lt "1.prems" have "alloc_kpages_scan (Suc i) np cmap = Some k"
      by (subst (asm) alloc_kpages_scan.simps) simp
    with "1.IH"(1)[OF lt] nf show ?thesis by simp
  next
    case fr: True
    show ?thesis
    proof (cases "run_ok i 0 np cmap")
      case True
      with lt fr "1.prems" have "k = i" by (subst (asm) alloc_kpages_scan.simps) simp
      with True lt fr show ?thesis by simp
    next
      case False
      with lt fr "1.prems" have "alloc_kpages_scan (Suc i) np cmap = Some k"
        by (subst (asm) alloc_kpages_scan.simps) simp
      with "1.IH"(2)[OF lt] fr False show ?thesis by simp
    qed
  qed
qed

lemma segment_replaced:
  assumes len: "length r = length cmap" and fit: "i + n \<le> length cmap" and seg: "length seg = n"
    and nth: "\<And>k. k < length cmap \<Longrightarrow>
                r ! k = (if i \<le> k \<and> k < i + n then seg ! (k - i) else cmap ! k)"
  shows "r = take i cmap @ seg @ drop (i + n) cmap"
proof (rule nth_equalityI)
  show "length r = length (take i cmap @ seg @ drop (i + n) cmap)"
    using len fit seg by simp
next
  fix k assume "k < length r"
  then have k: "k < length cmap" using len by simp
  consider (before) "k < i" | (inside) "i \<le> k" "k < i + n" | (after) "i + n \<le> k"
    by linarith
  then show "r ! k = (take i cmap @ seg @ drop (i + n) cmap) ! k"
  proof cases
    case before
    with k fit nth[OF k] show ?thesis by (simp add: nth_append)
  next
    case inside
    then have "k - i < n" by linarith
    with inside k fit seg nth[OF k] show ?thesis by (simp add: nth_append)
  next
    case after
    then have a: "\<not> k < i" "\<not> k - i < n" "i + n + (k - i - n) = k"
      by linarith+
    have "(take i cmap @ seg @ drop (i + n) cmap) ! k = drop (i + n) cmap ! (k - i - n)"
      using a(1,2) fit seg by (simp add: nth_append)
    also have "\<dots> = cmap ! (i + n + (k - i - n))"
      using fit by (rule nth_drop)
    also have "\<dots> = cmap ! k"
      using a(3) by simp
    finally show ?thesis
      using a(1,2) nth[OF k] after by simp
  qed
qed

lemma segment_itself:
  assumes fit: "i + n \<le> length cmap"
  shows "cmap = take i cmap @ take n (drop i cmap) @ drop (i + n) cmap"
proof -
  have "drop n (drop i cmap) = drop (i + n) cmap"
    by (simp add: add.commute)
  then have "drop i cmap = take n (drop i cmap) @ drop (i + n) cmap"
    using append_take_drop_id[of n "drop i cmap"] by simp
  moreover have "cmap = take i cmap @ drop i cmap" by simp
  ultimately show ?thesis by metis
qed

lemma sum_of_head_block_sizes_append:
  "sum_of_head_block_sizes (xs @ ys) = sum_of_head_block_sizes xs + sum_of_head_block_sizes ys"
  by (simp add: sum_of_head_block_sizes_def)

lemma count_in_use_append:
  "count_in_use (xs @ ys) = count_in_use xs + count_in_use ys"
  by (simp add: count_in_use_def)

lemma all_free_accounts:
  assumes "\<forall>e\<in>set xs. free e"
  shows "sum_of_head_block_sizes xs = 0" "count_in_use xs = 0"
  using assms by (simp_all add: sum_of_head_block_sizes_def count_in_use_def)

lemma interior_accounts:
  "sum_of_head_block_sizes (replicate m \<lparr>free = False, block_size = 0\<rparr>) = 0"
  "count_in_use (replicate m \<lparr>free = False, block_size = 0\<rparr>) = m"
  by (simp_all add: sum_of_head_block_sizes_def count_in_use_def)

lemma coremap_okI:
  assumes "\<And>k. k < length r \<Longrightarrow> free (r ! k) \<Longrightarrow> block_size (r ! k) = 0"
    and "\<And>k. k < length r \<Longrightarrow> k + block_size (r ! k) \<le> length r"
    and "\<And>k j. k < length r \<Longrightarrow> 0 < j \<Longrightarrow> j < block_size (r ! k) \<Longrightarrow>
           \<not> free (r ! (k + j)) \<and> block_size (r ! (k + j)) = 0"
  shows "coremap_ok r"
  using assms unfolding coremap_ok_iff by blast

lemma coremap_okD:
  assumes "coremap_ok cmap" "k < length cmap"
  shows "free (cmap ! k) \<Longrightarrow> block_size (cmap ! k) = 0"
    and "k + block_size (cmap ! k) \<le> length cmap"
    and "0 < j \<Longrightarrow> j < block_size (cmap ! k) \<Longrightarrow>
           \<not> free (cmap ! (k + j)) \<and> block_size (cmap ! (k + j)) = 0"
  using assms unfolding coremap_ok_iff by blast+

lemma block_allocated:
  assumes ok: "coremap_ok cmap" and np: "1 \<le> np"
    and run: "\<And>l. l < np \<Longrightarrow> i + l < length cmap \<and> free (cmap ! (i + l))"
    and len: "length r = length cmap"
    and nth: "\<And>k. k < length cmap \<Longrightarrow>
                r ! k = (if k = i then \<lparr>free = False, block_size = np\<rparr>
                         else if i < k \<and> k < i + np then \<lparr>free = False, block_size = 0\<rparr>
                         else cmap ! k)"
  shows "coremap_ok r"
    and "sum_of_head_block_sizes r = sum_of_head_block_sizes cmap + np"
    and "count_in_use r = count_in_use cmap + np"
proof -
  have fit: "i + np \<le> length cmap"
    using run[of "np - 1"] np by auto
  let ?seg = "\<lparr>free = False, block_size = np\<rparr> # replicate (np - 1) \<lparr>free = False, block_size = 0\<rparr>"
  have seglen: "length ?seg = np" using np by simp
  have r: "r = take i cmap @ ?seg @ drop (i + np) cmap"
  proof (rule segment_replaced[OF len fit seglen])
    fix k assume k: "k < length cmap"
    show "r ! k = (if i \<le> k \<and> k < i + np then ?seg ! (k - i) else cmap ! k)"
      using nth[OF k] np by (auto simp add: nth_Cons')
  qed
  have "\<forall>e\<in>set (take np (drop i cmap)). free e"
  proof
    fix e assume "e \<in> set (take np (drop i cmap))"
    then obtain l where l: "l < np" "e = take np (drop i cmap) ! l"
      using fit by (auto simp add: in_set_conv_nth)
    then have "e = cmap ! (i + l)" using fit by simp
    with run[OF l(1)] show "free e" by simp
  qed
  note old = all_free_accounts[OF this]
  have c: "cmap = take i cmap @ take np (drop i cmap) @ drop (i + np) cmap"
    by (rule segment_itself[OF fit])
  have s1: "sum_of_head_block_sizes cmap =
      sum_of_head_block_sizes (take i cmap) + sum_of_head_block_sizes (drop (i + np) cmap)"
    by (subst c) (simp only: sum_of_head_block_sizes_append old add_0)
  have s2: "count_in_use cmap = count_in_use (take i cmap) + count_in_use (drop (i + np) cmap)"
    by (subst c) (simp only: count_in_use_append old add_0)
  have seg1: "sum_of_head_block_sizes ?seg = np"
    using interior_accounts(1)[of "np - 1"] by (simp add: sum_of_head_block_sizes_def)
  have seg2: "count_in_use ?seg = np"
    using interior_accounts(2)[of "np - 1"] np by (simp add: count_in_use_def)
  show "sum_of_head_block_sizes r = sum_of_head_block_sizes cmap + np"
    by (subst r) (simp only: sum_of_head_block_sizes_append seg1 s1)
  show "count_in_use r = count_in_use cmap + np"
    by (subst r) (simp only: count_in_use_append seg2 s2)
  show "coremap_ok r"
  proof (rule coremap_okI)
    fix k assume "k < length r"
    then have k: "k < length cmap" using len by simp
    assume "free (r ! k)"
    with nth[OF k] coremap_okD(1)[OF ok k] show "block_size (r ! k) = 0"
      by (simp split: if_splits)
  next
    fix k assume "k < length r"
    then have k: "k < length cmap" using len by simp
    show "k + block_size (r ! k) \<le> length r"
      using nth[OF k] coremap_okD(2)[OF ok k] fit len k by (simp split: if_splits)
  next
    fix k j assume "k < length r" and j: "0 < j" "j < block_size (r ! k)"
    then have k: "k < length cmap" using len by simp
    show "\<not> free (r ! (k + j)) \<and> block_size (r ! (k + j)) = 0"
    proof (cases "k = i")
      case True
      with j nth[OF k] have "i < k + j" "k + j < i + np" by simp_all
      moreover from this fit have "k + j < length cmap" by simp
      ultimately show ?thesis using nth[of "k + j"] by simp
    next
      case False
      with j nth[OF k] have jb: "j < block_size (cmap ! k)"
        by (auto split: if_splits)
      from coremap_okD(3)[OF ok k j(1) jb]
      have used: "\<not> free (cmap ! (k + j))" "block_size (cmap ! (k + j)) = 0"
        by simp_all
      from jb coremap_okD(2)[OF ok k] have kj: "k + j < length cmap" by simp
      have "\<not> (i \<le> k + j \<and> k + j < i + np)"
      proof
        assume "i \<le> k + j \<and> k + j < i + np"
        then have "k + j - i < np" "i + (k + j - i) = k + j" by linarith+
        with run[of "k + j - i"] used show False by simp
      qed
      with nth[OF kj] used show ?thesis by auto
    qed
  qed
qed

lemma block_freed:
  assumes ok: "coremap_ok cmap" and idx: "index < length cmap"
    and b: "b = block_size (cmap ! index)" "0 < b"
    and len: "length r = length cmap"
    and nth: "\<And>k. k < length cmap \<Longrightarrow>
                r ! k = (if index \<le> k \<and> k < index + b then \<lparr>free = True, block_size = 0\<rparr>
                         else cmap ! k)"
  shows "coremap_ok r"
    and "sum_of_head_block_sizes r + b = sum_of_head_block_sizes cmap"
    and "count_in_use r + b = count_in_use cmap"
proof -
  have fit: "index + b \<le> length cmap"
    using coremap_okD(2)[OF ok idx] b by simp
  have head: "\<not> free (cmap ! index)"
    using coremap_okD(1)[OF ok idx] b by auto
  have inner: "\<not> free (cmap ! (index + j)) \<and> block_size (cmap ! (index + j)) = 0"
    if "0 < j" "j < b" for j
    using coremap_okD(3)[OF ok idx that(1)] that(2) b by simp
  let ?new = "replicate b \<lparr>free = True, block_size = 0\<rparr>"
  let ?old = "\<lparr>free = False, block_size = b\<rparr> # replicate (b - 1) \<lparr>free = False, block_size = 0\<rparr>"
  have r: "r = take index cmap @ ?new @ drop (index + b) cmap"
  proof (rule segment_replaced[OF len fit])
    show "length ?new = b" by simp
  next
    fix k assume k: "k < length cmap"
    show "r ! k = (if index \<le> k \<and> k < index + b then ?new ! (k - index) else cmap ! k)"
      using nth[OF k] by auto
  qed
  have c: "cmap = take index cmap @ ?old @ drop (index + b) cmap"
  proof (rule segment_replaced[OF refl fit])
    show "length ?old = b" using b by simp
  next
    fix k assume k: "k < length cmap"
    show "cmap ! k = (if index \<le> k \<and> k < index + b then ?old ! (k - index) else cmap ! k)"
    proof (cases "index \<le> k \<and> k < index + b")
      case False
      then show ?thesis by auto
    next
      case True
      show ?thesis
      proof (cases "k = index")
        case at: True
        have "cmap ! index = \<lparr>free = False, block_size = b\<rparr>"
          using head b(1) by simp
        with at True show ?thesis by simp
      next
        case False
        with True have j: "0 < k - index" "k - index < b" "index + (k - index) = k"
          by linarith+
        from inner[OF j(1,2)] j(3) have "cmap ! k = \<lparr>free = False, block_size = 0\<rparr>"
          by simp
        with True False j show ?thesis by (simp add: nth_Cons')
      qed
    qed
  qed
  have new: "sum_of_head_block_sizes ?new = 0" "count_in_use ?new = 0"
    by (simp_all add: sum_of_head_block_sizes_def count_in_use_def)
  have old1: "sum_of_head_block_sizes ?old = b"
    using interior_accounts(1)[of "b - 1"] by (simp add: sum_of_head_block_sizes_def)
  have old2: "count_in_use ?old = b"
    using interior_accounts(2)[of "b - 1"] b by (simp add: count_in_use_def)
  have r1: "sum_of_head_block_sizes r =
      sum_of_head_block_sizes (take index cmap) + sum_of_head_block_sizes (drop (index + b) cmap)"
    by (subst r) (simp only: sum_of_head_block_sizes_append new add_0)
  have r2: "count_in_use r = count_in_use (take index cmap) + count_in_use (drop (index + b) cmap)"
    by (subst r) (simp only: count_in_use_append new add_0)
  have c1: "sum_of_head_block_sizes cmap =
      sum_of_head_block_sizes (take index cmap) + (b + sum_of_head_block_sizes (drop (index + b) cmap))"
    by (subst c) (simp only: sum_of_head_block_sizes_append old1)
  have c2: "count_in_use cmap =
      count_in_use (take index cmap) + (b + count_in_use (drop (index + b) cmap))"
    by (subst c) (simp only: count_in_use_append old2)
  show "sum_of_head_block_sizes r + b = sum_of_head_block_sizes cmap"
    using r1 c1 by simp
  show "count_in_use r + b = count_in_use cmap"
    using r2 c2 by simp
  show "coremap_ok r"
  proof (rule coremap_okI)
    fix k assume "k < length r"
    then have k: "k < length cmap" using len by simp
    assume "free (r ! k)"
    with nth[OF k] coremap_okD(1)[OF ok k] show "block_size (r ! k) = 0"
      by (simp split: if_splits)
  next
    fix k assume "k < length r"
    then have k: "k < length cmap" using len by simp
    show "k + block_size (r ! k) \<le> length r"
      using nth[OF k] coremap_okD(2)[OF ok k] len k by (simp split: if_splits)
  next
    fix k j assume "k < length r" and j: "0 < j" "j < block_size (r ! k)"
    then have k: "k < length cmap" using len by simp
    from j nth[OF k] have out: "\<not> (index \<le> k \<and> k < index + b)"
      and jb: "j < block_size (cmap ! k)"
      by (auto split: if_splits)
    from coremap_okD(3)[OF ok k j(1) jb]
    have used: "\<not> free (cmap ! (k + j))" "block_size (cmap ! (k + j)) = 0"
      by simp_all
    from jb coremap_okD(2)[OF ok k] have kj: "k + j < length cmap" by simp
    have "\<not> (index \<le> k + j \<and> k + j < index + b)"
    proof
      assume in_range: "index \<le> k + j \<and> k + j < index + b"
      from used b have "k + j \<noteq> index" by auto
      with in_range out have before: "k < index" by linarith
      then have "0 < index - k" "index - k < block_size (cmap ! k)" "k + (index - k) = index"
        using in_range jb \<open>k + j \<noteq> index\<close> by linarith+
      with coremap_okD(3)[OF ok k, of "index - k"] b show False by simp
    qed
    with nth[OF kj] used show "\<not> free (r ! (k + j)) \<and> block_size (r ! (k + j)) = 0"
      by auto
  qed
qed

lemma alloc_page_scan_Some:
  "alloc_page_scan i cmap = Some k \<Longrightarrow> k < length cmap \<and> free (cmap ! k)"
proof (induction i cmap rule: alloc_page_scan.induct)
  case (1 i cmap)
  note [simp del] = alloc_page_scan.simps
  from "1.prems" have lt: "i < length cmap"
    by (subst (asm) alloc_page_scan.simps) (simp split: if_splits)
  show ?case
  proof (cases "free (cmap ! i)")
    case True
    with lt "1.prems" have "k = i" by (subst (asm) alloc_page_scan.simps) simp
    with True lt show ?thesis by simp
  next
    case False
    with lt "1.prems" have "alloc_page_scan (Suc i) cmap = Some k"
      by (subst (asm) alloc_page_scan.simps) simp
    with "1.IH"[OF lt False] show ?thesis by simp
  qed
qed

lemma free_kpages_loop_Done:
  assumes "\<forall>i\<in>set is. index + i < length cmap"
  shows "\<exists>r. free_kpages_loop index is cmap = Done r \<and> length r = length cmap
           \<and> (\<forall>k<length cmap. r ! k = (if \<exists>i\<in>set is. k = index + i
                                        then \<lparr>free = True, block_size = 0\<rparr> else cmap ! k))"
  using assms
proof (induction "is" arbitrary: cmap)
  case Nil
  then show ?case by simp
next
  case (Cons i "is")
  let ?c = "cmap[index + i := \<lparr>free = True, block_size = 0\<rparr>]"
  from Cons.prems have "\<forall>i\<in>set is. index + i < length ?c" by simp
  from Cons.IH[OF this] obtain r where r: "free_kpages_loop index is ?c = Done r"
    "length r = length cmap"
    "\<forall>k<length cmap. r ! k = (if \<exists>i\<in>set is. k = index + i
                                then \<lparr>free = True, block_size = 0\<rparr> else ?c ! k)"
    by auto
  from Cons.prems have "free_kpages_loop index (i # is) cmap = Done r"
    using r(1) by simp
  moreover have "\<forall>k<length cmap. r ! k = (if \<exists>i\<in>set (i # is). k = index + i
                                then \<lparr>free = True, block_size = 0\<rparr> else cmap ! k)"
    using r(3) by (auto simp add: nth_list_update)
  ultimately show ?case using r(2) by blast
qed

lemma vm_bootstrap_inv: "coremap_inv (vm_bootstrap hi lo entry_size)"
  by (simp add: coremap_inv_def vm_bootstrap_def Let_def coremap_ok_iff
      sum_of_head_block_sizes_def count_in_use_def)

lemma alloc_kpages_inv:
  assumes inv: "coremap_inv c" and np: "1 \<le> np"
  shows "coremap_inv (snd (alloc_kpages K stolen np c))"
proof (cases "coremap_ready c")
  case False
  with inv show ?thesis by (simp add: alloc_kpages_def)
next
  case True
  show ?thesis
  proof (cases "alloc_kpages_scan 0 np (coremap c)")
    case None
    with True inv show ?thesis by (simp add: alloc_kpages_def)
  next
    case (Some i)
    let ?r = "mark_interior i [1..<np] ((coremap c)[i := \<lparr>free = False, block_size = np\<rparr>])"
    from alloc_kpages_scan_Some[OF Some] have "run_ok i 0 np (coremap c)"
      by blast
    then have run: "\<And>l. l < np \<Longrightarrow> i + l < length (coremap c) \<and> free (coremap c ! (i + l))"
      unfolding run_ok_iff by blast
    have nth: "?r ! k = (if k = i then \<lparr>free = False, block_size = np\<rparr>
                         else if i < k \<and> k < i + np then \<lparr>free = False, block_size = 0\<rparr>
                         else coremap c ! k)" if "k < length (coremap c)" for k
    proof -
      have "(\<exists>j\<in>set [1..<np]. k = i + j) \<longleftrightarrow> i < k \<and> k < i + np"
      proof
        assume "\<exists>j\<in>set [1..<np]. k = i + j"
        then show "i < k \<and> k < i + np" by auto
      next
        assume a: "i < k \<and> k < i + np"
        then have "k - i \<in> set [1..<np]" "k = i + (k - i)" by auto
        then show "\<exists>j\<in>set [1..<np]. k = i + j" by blast
      qed
      with that show ?thesis
        by (simp add: mark_interior_nth nth_list_update)
    qed
    from inv have ok: "coremap_ok (coremap c)"
      and acc: "sum_of_head_block_sizes (coremap c) = count_in_use (coremap c)"
      by (simp_all add: coremap_inv_def)
    have len: "length ?r = length (coremap c)" by simp
    note facts = block_allocated[OF ok np run len nth]
    have "snd (alloc_kpages K stolen np c) = c\<lparr>coremap := ?r\<rparr>"
      using True Some by (simp add: alloc_kpages_def)
    with facts acc show ?thesis by (simp add: coremap_inv_def)
  qed
qed

lemma alloc_page_inv:
  assumes inv: "coremap_inv c"
  shows "coremap_inv (snd (alloc_page stolen c))"
proof (cases "coremap_ready c")
  case False
  with inv show ?thesis by (simp add: alloc_page_def)
next
  case True
  show ?thesis
  proof (cases "alloc_page_scan 0 (coremap c)")
    case None
    with True inv show ?thesis by (simp add: alloc_page_def)
  next
    case (Some i)
    let ?r = "(coremap c)[i := \<lparr>free = False, block_size = 1\<rparr>]"
    from alloc_page_scan_Some[OF Some] have i: "i < length (coremap c)" "free (coremap c ! i)"
      by simp_all
    from inv have ok: "coremap_ok (coremap c)"
      and acc: "sum_of_head_block_sizes (coremap c) = count_in_use (coremap c)"
      by (simp_all add: coremap_inv_def)
    have run: "i + l < length (coremap c) \<and> free (coremap c ! (i + l))" if "l < 1" for l
      using that i by simp
    have nth: "?r ! k = (if k = i then \<lparr>free = False, block_size = 1\<rparr>
                         else if i < k \<and> k < i + 1 then \<lparr>free = False, block_size = 0\<rparr>
                         else coremap c ! k)" if "k < length (coremap c)" for k
      using that by (simp add: nth_list_update)
    have len: "length ?r = length (coremap c)" by simp
    note facts = block_allocated[OF ok order_refl run len nth]
    have "snd (alloc_page stolen c) = c\<lparr>coremap := ?r\<rparr>"
      using True Some by (simp add: alloc_page_def)
    with facts acc show ?thesis by (simp add: coremap_inv_def)
  qed
qed

lemma free_page_inv:
  assumes inv: "coremap_inv c" and ret: "free_page pa c = Done c'"
  shows "coremap_inv c'"
proof (cases "\<not> coremap_ready c \<or> pa < first_paddr c")
  case True
  with ret have "c' = c" by (auto simp add: free_page_def split: if_splits)
  with inv show ?thesis by simp
next
  case False
  define idx where "idx = unat ((pa - first_paddr c) div PAGE_SIZE)"
  let ?r = "(coremap c)[idx := \<lparr>free = True, block_size = 0\<rparr>]"
  from False ret have idx: "idx < length (coremap c)" and one: "block_size (coremap c ! idx) = 1"
    and c': "c' = c\<lparr>coremap := ?r\<rparr>"
    by (auto simp add: free_page_def idx_def Let_def total_pages_def split: if_splits)
  from inv have ok: "coremap_ok (coremap c)"
    and acc: "sum_of_head_block_sizes (coremap c) = count_in_use (coremap c)"
    by (simp_all add: coremap_inv_def)
  have nth: "?r ! k = (if idx \<le> k \<and> k < idx + 1 then \<lparr>free = True, block_size = 0\<rparr>
                       else coremap c ! k)" if "k < length (coremap c)" for k
    using that by (auto simp add: nth_list_update)
  have len: "length ?r = length (coremap c)" by simp
  note facts = block_freed[OF ok idx one[symmetric] zero_less_one len nth]
  from facts acc c' show ?thesis by (simp add: coremap_inv_def)
qed

lemma free_kpages_frees_block:
  assumes inv: "coremap_inv c" and ready: "coremap_ready c"
    and pa: "\<not> KVADDR_TO_PADDR K kvaddr < first_paddr c"
    and idx: "index = unat ((KVADDR_TO_PADDR K kvaddr - first_paddr c) div PAGE_SIZE)"
      "index < total_pages c"
    and b: "0 < block_size (coremap c ! index)"
  shows "\<exists>r. free_kpages K kvaddr c = Done (c\<lparr>coremap := r\<rparr>) \<and> length r = length (coremap c)
           \<and> (\<forall>k<length (coremap c). r ! k =
                 (if index \<le> k \<and> k < index + block_size (coremap c ! index)
                  then \<lparr>free = True, block_size = 0\<rparr> else coremap c ! k))
           \<and> coremap_inv (c\<lparr>coremap := r\<rparr>)
           \<and> count_in_use r + block_size (coremap c ! index) = count_in_use (coremap c)"
proof -
  let ?b = "block_size (coremap c ! index)"
  from inv have ok: "coremap_ok (coremap c)"
    and acc: "sum_of_head_block_sizes (coremap c) = count_in_use (coremap c)"
    by (simp_all add: coremap_inv_def)
  from idx have i: "index < length (coremap c)" by (simp add: total_pages_def)
  have fit: "index + ?b \<le> length (coremap c)"
    by (rule coremap_okD(2)[OF ok i])
  then have "\<forall>i\<in>set [0..<?b]. index + i < length (coremap c)" by auto
  from free_kpages_loop_Done[OF this] obtain r
    where r: "free_kpages_loop index [0..<?b] (coremap c) = Done r"
      "length r = length (coremap c)"
      "\<forall>k<length (coremap c). r ! k = (if \<exists>i\<in>set [0..<?b]. k = index + i
                                        then \<lparr>free = True, block_size = 0\<rparr> else coremap c ! k)"
    by blast
  have rng: "(\<exists>i\<in>set [0..<?b]. k = index + i) \<longleftrightarrow> index \<le> k \<and> k < index + ?b" for k
  proof
    assume "\<exists>i\<in>set [0..<?b]. k = index + i"
    then show "index \<le> k \<and> k < index + ?b" by auto
  next
    assume "index \<le> k \<and> k < index + ?b"
    then have "k - index \<in> set [0..<?b]" "k = index + (k - index)" by auto
    then show "\<exists>i\<in>set [0..<?b]. k = index + i" by blast
  qed
  have nth: "r ! k = (if index \<le> k \<and> k < index + ?b then \<lparr>free = True, block_size = 0\<rparr>
                      else coremap c ! k)" if "k < length (coremap c)" for k
    using r(3) that rng[of k] by simp
  note facts = block_freed[OF ok i refl b r(2) nth]
  have "free_kpages K kvaddr c = Done (c\<lparr>coremap := r\<rparr>)"
    using ready pa idx b r(1) by (simp add: free_kpages_def Let_def obind_def)
  moreover have "coremap_inv (c\<lparr>coremap := r\<rparr>)"
    using facts acc by (simp add: coremap_inv_def)
  ultimately show ?thesis using r(2) nth facts(3) by blast
qed

lemma free_kpages_inv:
  assumes inv: "coremap_inv c" and ret: "free_kpages K kvaddr c = Done c'"
  shows "coremap_inv c'"
proof (cases "\<not> coremap_ready c \<or> KVADDR_TO_PADDR K kvaddr < first_paddr c")
  case True
  with ret have "c' = c" by (auto simp add: free_kpages_def Let_def split: if_splits)
  with inv show ?thesis by simp
next
  case False
  define index where "index = unat ((KVADDR_TO_PADDR K kvaddr - first_paddr c) div PAGE_SIZE)"
  from False ret have "index < total_pages c" "0 < block_size (coremap c ! index)"
    by (auto simp add: free_kpages_def Let_def index_def split: if_splits)
  from free_kpages_frees_block[OF inv _ _ index_def this] False ret
  show ?thesis by auto
qed

lemma free_kpages_in_bounds:
  assumes inv: "coremap_inv c"
  shows "free_kpages K kvaddr c \<noteq> Undefined"
proof (cases "\<not> coremap_ready c \<or> KVADDR_TO_PADDR K kvaddr < first_paddr c")
  case True
  then show ?thesis by (auto simp add: free_kpages_def Let_def split: if_splits)
next
  case False
  define index where "index = unat ((KVADDR_TO_PADDR K kvaddr - first_paddr c) div PAGE_SIZE)"
  show ?thesis
  proof (cases "index < total_pages c \<and> 0 < block_size (coremap c ! index)")
    case True
    with free_kpages_frees_block[OF inv _ _ index_def] False show ?thesis by auto
  next
    case no: False
    with False have "free_kpages K kvaddr c = Panic"
      by (auto simp add: free_kpages_def Let_def index_def)
    then show ?thesis by simp
  qed
qed

text \<open>
  Claim C3 (the code departs from it). On a freshly bootstrapped coremap, where the
  accounting invariant holds, \<open>alloc_kpages(0)\<close> finds frame 0 free, finds the empty run
  acceptable, and marks frame 0 in use with block size 0: one frame is in use while the
  block sizes sum to 0. The address it returns cannot be freed: \<open>free_kpages\<close> stops on
  its assertion that the block size is positive.
\<close>

theorem alloc_kpages_zero_breaks_accounting:
  "sum_of_head_block_sizes (coremap fresh_coremap) = count_in_use (coremap fresh_coremap)
   \<and> alloc_kpages os161 0 0 fresh_coremap = (0x80100000, leaked_coremap)
   \<and> sum_of_head_block_sizes (coremap leaked_coremap) = 0
   \<and> count_in_use (coremap leaked_coremap) = 1
   \<and> free_kpages os161 0x80100000 leaked_coremap = Panic"
proof -
  have a: "sum_of_head_block_sizes (coremap fresh_coremap) = count_in_use (coremap fresh_coremap)"
    by (simp add: sum_of_head_block_sizes_def count_in_use_def fresh_coremap_def)
  have scan: "alloc_kpages_scan 0 0 (coremap fresh_coremap) = Some 0"
    by (simp add: fresh_coremap_def)
  have b: "alloc_kpages os161 0 0 fresh_coremap = (0x80100000, leaked_coremap)"
    unfolding alloc_kpages_def scan
    by (simp add: fresh_coremap_def leaked_coremap_def PADDR_TO_KVADDR_def os161_def PAGE_SIZE_def)
  have c: "sum_of_head_block_sizes (coremap leaked_coremap) = 0"
    "count_in_use (coremap leaked_coremap) = 1"
    by (simp_all add: sum_of_head_block_sizes_def count_in_use_def leaked_coremap_def)
  have d: "free_kpages os161 0x80100000 leaked_coremap = Panic"
    by (simp add: free_kpages_def KVADDR_TO_PADDR_def os161_def leaked_coremap_def total_pages_def
        PAGE_SIZE_def)
  from a b c d show ?thesis by (intro conjI)
qed


section \<open>Properties of the page-fault handler\<close>

lemma tlb_find_invalid_in: "tlb_find_invalid K is t = Some i \<Longrightarrow> i \<in> set is"
  by (induction "is") (auto split: if_splits)

lemma tlb_install_slot:
  assumes "0 < NUM_TLB K"
  shows "\<exists>i < NUM_TLB K. tlb_install K rnd ehi elo t = Done (t(i := (ehi, elo)))"
proof (cases "tlb_find_invalid K [0..<NUM_TLB K] t")
  case None
  then have "tlb_install K rnd ehi elo t = Done (t(rnd mod NUM_TLB K := (ehi, elo)))"
    using assms by (simp add: tlb_install_def)
  moreover have "rnd mod NUM_TLB K < NUM_TLB K" using assms by simp
  ultimately show ?thesis by blast
next
  case (Some i)
  then have "i < NUM_TLB K" using tlb_find_invalid_in[OF Some] by simp
  moreover have "tlb_install K rnd ehi elo t = Done (t(i := (ehi, elo)))"
    using Some by (simp add: tlb_install_def)
  ultimately show ?thesis by blast
qed

lemma vm_fault_outside:
  assumes "cur_as k = Some as"
    and "find_region (regions as) fa = None"
    and "\<not> (heap_base as \<le> fa \<and> fa < heap_end as)"
    and "\<not> (stack_end as \<le> fa \<and> fa < stack_base as)"
  shows "vm_fault_page K km stolen rnd ftype fa k = Done (Some EFAULT, k)"
proof -
  have cl: "classify_fault as fa = (False, False)"
    using assms by (auto simp add: classify_fault_def)
  show ?thesis unfolding vm_fault_page_def by (simp add: assms(1) cl)
qed

lemma vm_fault_readonly:
  assumes "cur_as k = Some as"
    and "find_region (regions as) fa = Some r"
    and "\<not> writeable r" "\<not> loading as"
  shows "vm_fault_page K km stolen rnd VM_FAULT_READONLY fa k = Done (Some EFAULT, k)"
proof -
  have cl: "classify_fault as fa = (True, False)"
    using assms by (auto simp add: classify_fault_def)
  show ?thesis unfolding vm_fault_page_def by (simp add: assms(1) cl)
qed

lemma vm_fault_page_unfold:
  assumes as: "cur_as k = Some as"
    and cl: "classify_fault as fa = (True, True)"
    and topt: "(case pt_l1 as (pt_l1_index fa) of Some t \<Rightarrow> Some t
                | None \<Rightarrow> if km then Some (\<lambda>i. 0) else None) = Some tbl"
  shows "vm_fault_page K km stolen rnd ftype fa k =
      (let pc = (if tbl (pt_l2_index fa) = 0 then alloc_page stolen (cm k)
                 else (tbl (pt_l2_index fa), cm k));
           as1 = as\<lparr>pt_l1 := (pt_l1 as)(pt_l1_index fa \<mapsto> tbl)\<rparr>
       in if fst pc = 0 then Done (Some ENOMEM, k\<lparr>cur_as := Some as1\<rparr>)
          else obind (tlb_install K rnd fa (fst pc OR TLBLO_VALID K OR TLBLO_DIRTY K) (tlb k))
                 (\<lambda>t. Done (None, k\<lparr>cur_as := Some (as1\<lparr>pt_l1 :=
                          (pt_l1 as1)(pt_l1_index fa \<mapsto> tbl(pt_l2_index fa := fst pc))\<rparr>),
                        cm := snd pc, tlb := t\<rparr>)))"
  unfolding vm_fault_page_def
  apply (simp only: as cl option.case prod.case simp_thms if_True if_False faulttype.simps)
  apply (simp only: Let_def split_beta)
  apply (simp only: topt option.case fst_conv snd_conv simp_thms if_True if_False)
  done

lemma vm_fault_loading:
  assumes as: "cur_as k = Some as"
    and r: "find_region (regions as) fa = Some r"
    and ld: "loading as"
  shows "(pt_l1 as (pt_l1_index fa) = None \<and> \<not> km \<longrightarrow>
            vm_fault_page K km stolen rnd ftype fa k = Done (Some ENOMEM, k))"
    and "((pt_l1 as (pt_l1_index fa) \<noteq> None \<or> km)
            \<and> pt_lookup as fa = 0 \<and> fst (alloc_page stolen (cm k)) = 0 \<longrightarrow>
            (\<exists>k'. vm_fault_page K km stolen rnd ftype fa k = Done (Some ENOMEM, k')
                  \<and> tlb k' = tlb k \<and> cm k' = cm k))"
    and "((pt_l1 as (pt_l1_index fa) \<noteq> None \<or> km)
            \<and> (pt_lookup as fa \<noteq> 0 \<or> fst (alloc_page stolen (cm k)) \<noteq> 0)
            \<and> 0 < NUM_TLB K \<longrightarrow>
            (\<exists>k' as' i. vm_fault_page K km stolen rnd ftype fa k = Done (None, k')
                  \<and> cur_as k' = Some as' \<and> pt_lookup as' fa \<noteq> 0
                  \<and> i < NUM_TLB K
                  \<and> tlb k' = (tlb k)(i := (fa,
                        pt_lookup as' fa OR TLBLO_VALID K OR TLBLO_DIRTY K))))"
proof -
  let ?l1 = "pt_l1_index fa"
  let ?l2 = "pt_l2_index fa"
  have cl: "classify_fault as fa = (True, True)"
    using r ld by (simp add: classify_fault_def)
  show "(pt_l1 as ?l1 = None \<and> \<not> km \<longrightarrow>
            vm_fault_page K km stolen rnd ftype fa k = Done (Some ENOMEM, k))"
    unfolding vm_fault_page_def by (simp add: as cl)
  define tbl where "tbl = (case pt_l1 as ?l1 of Some t \<Rightarrow> t | None \<Rightarrow> (\<lambda>i. 0))"
  have look: "pt_lookup as fa = tbl ?l2"
    by (simp add: pt_lookup_def tbl_def split: option.splits)
  define pc where "pc = (if tbl ?l2 = 0 then alloc_page stolen (cm k) else (tbl ?l2, cm k))"
  define as1 where "as1 = as\<lparr>pt_l1 := (pt_l1 as)(?l1 \<mapsto> tbl)\<rparr>"
  define as' where "as' = as1\<lparr>pt_l1 := (pt_l1 as1)(?l1 \<mapsto> tbl(?l2 := fst pc))\<rparr>"
  have unf: "vm_fault_page K km stolen rnd ftype fa k =
      (if fst pc = 0 then Done (Some ENOMEM, k\<lparr>cur_as := Some as1\<rparr>)
       else obind (tlb_install K rnd fa (fst pc OR TLBLO_VALID K OR TLBLO_DIRTY K) (tlb k))
              (\<lambda>t. Done (None, k\<lparr>cur_as := Some as', cm := snd pc, tlb := t\<rparr>)))"
    if "pt_l1 as ?l1 \<noteq> None \<or> km"
  proof -
    have topt: "(case pt_l1 as ?l1 of Some t \<Rightarrow> Some t | None \<Rightarrow> if km then Some (\<lambda>i. 0) else None)
        = Some tbl"
      using that by (auto simp add: tbl_def split: option.splits)
    show ?thesis
      unfolding as'_def as1_def pc_def
      by (simp only: vm_fault_page_unfold[OF as cl topt] Let_def)
  qed
  show "((pt_l1 as ?l1 \<noteq> None \<or> km)
            \<and> pt_lookup as fa = 0 \<and> fst (alloc_page stolen (cm k)) = 0 \<longrightarrow>
            (\<exists>k'. vm_fault_page K km stolen rnd ftype fa k = Done (Some ENOMEM, k')
                  \<and> tlb k' = tlb k \<and> cm k' = cm k))"
  proof (intro impI)
    assume h: "(pt_l1 as ?l1 \<noteq> None \<or> km)
            \<and> pt_lookup as fa = 0 \<and> fst (alloc_page stolen (cm k)) = 0"
    then have z: "fst pc = 0" using look by (simp add: pc_def)
    from h have "pt_l1 as ?l1 \<noteq> None \<or> km" by blast
    note eq = unf[OF this]
    have "vm_fault_page K km stolen rnd ftype fa k = Done (Some ENOMEM, k\<lparr>cur_as := Some as1\<rparr>)"
      unfolding eq using z by simp
    then show "\<exists>k'. vm_fault_page K km stolen rnd ftype fa k = Done (Some ENOMEM, k')
                  \<and> tlb k' = tlb k \<and> cm k' = cm k"
      by simp
  qed
  show "((pt_l1 as ?l1 \<noteq> None \<or> km)
            \<and> (pt_lookup as fa \<noteq> 0 \<or> fst (alloc_page stolen (cm k)) \<noteq> 0)
            \<and> 0 < NUM_TLB K \<longrightarrow>
            (\<exists>k' as' i. vm_fault_page K km stolen rnd ftype fa k = Done (None, k')
                  \<and> cur_as k' = Some as' \<and> pt_lookup as' fa \<noteq> 0
                  \<and> i < NUM_TLB K
                  \<and> tlb k' = (tlb k)(i := (fa,
                        pt_lookup as' fa OR TLBLO_VALID K OR TLBLO_DIRTY K))))"
  proof (intro impI)
    assume h: "(pt_l1 as ?l1 \<noteq> None \<or> km)
            \<and> (pt_lookup as fa \<noteq> 0 \<or> fst (alloc_page stolen (cm k)) \<noteq> 0)
            \<and> 0 < NUM_TLB K"
    have pnz: "fst pc \<noteq> 0" using h look by (auto simp add: pc_def)
    have look': "pt_lookup as' fa = fst pc" by (simp add: pt_lookup_def as'_def as1_def)
    let ?elo = "fst pc OR TLBLO_VALID K OR TLBLO_DIRTY K"
    from h have pos: "0 < NUM_TLB K" by simp
    from tlb_install_slot[OF pos, of rnd fa ?elo "tlb k"] obtain i where
      i: "i < NUM_TLB K" "tlb_install K rnd fa ?elo (tlb k) = Done ((tlb k)(i := (fa, ?elo)))"
      by auto
    from h have "pt_l1 as ?l1 \<noteq> None \<or> km" by blast
    note eq = unf[OF this]
    have "vm_fault_page K km stolen rnd ftype fa k
        = Done (None, k\<lparr>cur_as := Some as', cm := snd pc, tlb := (tlb k)(i := (fa, ?elo))\<rparr>)"
      unfolding eq using pnz by (simp add: i(2) obind_def)
    with i(1) look' pnz show "\<exists>k' as' i. vm_fault_page K km stolen rnd ftype fa k = Done (None, k')
                  \<and> cur_as k' = Some as' \<and> pt_lookup as' fa \<noteq> 0
                  \<and> i < NUM_TLB K
                  \<and> tlb k' = (tlb k)(i := (fa,
                        pt_lookup as' fa OR TLBLO_VALID K OR TLBLO_DIRTY K))"
      by (intro exI[of _ "k\<lparr>cur_as := Some as', cm := snd pc, tlb := (tlb k)(i := (fa, ?elo))\<rparr>"]
            exI[of _ as'] exI[of _ i]) simp
  qed
qed


text \<open>
  Claim C4, amended. For a process with an address space and every fault address: if
  the page-aligned address lies in no region, nor in the heap range, nor in the stack
  range, \<open>vm_fault\<close> returns \<open>EFAULT\<close> and the state (page table, coremap, TLB) is
  unchanged. A read-only-violation fault on an address whose region is not writeable
  returns \<open>EFAULT\<close>, state unchanged, while the loading flag is false. With the loading
  flag true the same fault is not rejected: it returns \<open>ENOMEM\<close> when the level-2 table
  is missing and cannot be allocated (state unchanged) or when the page has no frame and
  \<open>alloc_page\<close> returns 0 (TLB and coremap unchanged); in every other case it returns 0,
  the page table records a frame for the page, and one TLB slot holds the page's
  entry with that frame, valid and dirty.
\<close>

theorem vm_fault_spec:
  "cur_as k = Some as \<longrightarrow>
   (find_region (regions as) (a AND PAGE_FRAME) = None
      \<and> \<not> (heap_base as \<le> a AND PAGE_FRAME \<and> a AND PAGE_FRAME < heap_end as)
      \<and> \<not> (stack_end as \<le> a AND PAGE_FRAME \<and> a AND PAGE_FRAME < stack_base as) \<longrightarrow>
      vm_fault K km stolen rnd ftype a k = Done (Some EFAULT, k))
   \<and> (find_region (regions as) (a AND PAGE_FRAME) = Some r \<and> \<not> writeable r \<and> \<not> loading as \<longrightarrow>
      vm_fault K km stolen rnd VM_FAULT_READONLY a k = Done (Some EFAULT, k))
   \<and> (find_region (regions as) (a AND PAGE_FRAME) = Some r \<and> \<not> writeable r \<and> loading as \<longrightarrow>
      (pt_l1 as (pt_l1_index (a AND PAGE_FRAME)) = None \<and> \<not> km \<longrightarrow>
         vm_fault K km stolen rnd VM_FAULT_READONLY a k = Done (Some ENOMEM, k))
      \<and> ((pt_l1 as (pt_l1_index (a AND PAGE_FRAME)) \<noteq> None \<or> km)
           \<and> pt_lookup as (a AND PAGE_FRAME) = 0 \<and> fst (alloc_page stolen (cm k)) = 0 \<longrightarrow>
         (\<exists>k'. vm_fault K km stolen rnd VM_FAULT_READONLY a k = Done (Some ENOMEM, k')
               \<and> tlb k' = tlb k \<and> cm k' = cm k))
      \<and> ((pt_l1 as (pt_l1_index (a AND PAGE_FRAME)) \<noteq> None \<or> km)
           \<and> (pt_lookup as (a AND PAGE_FRAME) \<noteq> 0 \<or> fst (alloc_page stolen (cm k)) \<noteq> 0)
           \<and> 0 < NUM_TLB K \<longrightarrow>
         (\<exists>k' as' i. vm_fault K km stolen rnd VM_FAULT_READONLY a k = Done (None, k')
               \<and> cur_as k' = Some as' \<and> pt_lookup as' (a AND PAGE_FRAME) \<noteq> 0
               \<and> i < NUM_TLB K
               \<and> tlb k' = (tlb k)(i := (a AND PAGE_FRAME,
                     pt_lookup as' (a AND PAGE_FRAME) OR TLBLO_VALID K OR TLBLO_DIRTY K)))))"
proof (intro impI conjI)
  assume as: "cur_as k = Some as"
  {
    assume "find_region (regions as) (a AND PAGE_FRAME) = None
      \<and> \<not> (heap_base as \<le> a AND PAGE_FRAME \<and> a AND PAGE_FRAME < heap_end as)
      \<and> \<not> (stack_end as \<le> a AND PAGE_FRAME \<and> a AND PAGE_FRAME < stack_base as)"
    then show "vm_fault K km stolen rnd ftype a k = Done (Some EFAULT, k)"
      unfolding vm_fault_def using as by (intro vm_fault_outside) blast+
  }
  {
    assume "find_region (regions as) (a AND PAGE_FRAME) = Some r \<and> \<not> writeable r \<and> \<not> loading as"
    then show "vm_fault K km stolen rnd VM_FAULT_READONLY a k = Done (Some EFAULT, k)"
      unfolding vm_fault_def using as by (intro vm_fault_readonly[where r = r]) blast+
  }
  {
    assume h: "find_region (regions as) (a AND PAGE_FRAME) = Some r \<and> \<not> writeable r \<and> loading as"
    then have r: "find_region (regions as) (a AND PAGE_FRAME) = Some r" and ld: "loading as"
      by blast+
    note l = vm_fault_loading[OF as r ld, where km = km and K = K and stolen = stolen
        and rnd = rnd and ftype = VM_FAULT_READONLY, folded vm_fault_def]
    {
      assume "pt_l1 as (pt_l1_index (a AND PAGE_FRAME)) = None \<and> \<not> km"
      then show "vm_fault K km stolen rnd VM_FAULT_READONLY a k = Done (Some ENOMEM, k)"
        using l(1) by blast
    }
    {
      assume "(pt_l1 as (pt_l1_index (a AND PAGE_FRAME)) \<noteq> None \<or> km)
           \<and> pt_lookup as (a AND PAGE_FRAME) = 0 \<and> fst (alloc_page stolen (cm k)) = 0"
      then show "\<exists>k'. vm_fault K km stolen rnd VM_FAULT_READONLY a k = Done (Some ENOMEM, k')
               \<and> tlb k' = tlb k \<and> cm k' = cm k"
        using l(2) by blast
    }
    {
      assume "(pt_l1 as (pt_l1_index (a AND PAGE_FRAME)) \<noteq> None \<or> km)
           \<and> (pt_lookup as (a AND PAGE_FRAME) \<noteq> 0 \<or> fst (alloc_page stolen (cm k)) \<noteq> 0)
           \<and> 0 < NUM_TLB K"
      then show "\<exists>k' as' i. vm_fault K km stolen rnd VM_FAULT_READONLY a k = Done (None, k')
               \<and> cur_as k' = Some as' \<and> pt_lookup as' (a AND PAGE_FRAME) \<noteq> 0
               \<and> i < NUM_TLB K
               \<and> tlb k' = (tlb k)(i := (a AND PAGE_FRAME,
                     pt_lookup as' (a AND PAGE_FRAME) OR TLBLO_VALID K OR TLBLO_DIRTY K))"
        using l(3) by blast
    }
  }
qed

lemma text_facts:
  "cur_as (text_vm ld ff) = Some (text_as ld)"
  "find_region (regions (text_as ld)) (0x400123 AND PAGE_FRAME) = Some text_region"
  "\<not> writeable text_region"
  "loading (text_as ld) = ld"
  "pt_l1 (text_as ld) i = None"
  "pt_lookup (text_as ld) x = 0"
  "fst (alloc_page 0 (cm (text_vm ld False))) = 0"
  "fst (alloc_page 0 (cm (text_vm ld True))) = 0x100000"
  "tlb (text_vm ld ff) = (\<lambda>i. (0, 0))"
  by (simp_all add: text_vm_def text_as_def text_region_def PAGE_FRAME_def PAGE_SIZE_def
      pt_lookup_def alloc_page_def)

text \<open>
  Claim C4 as stated fails: a read-only-violation fault on the read-only text page
  with the loading flag true does not succeed when no frame is free; it returns
  \<open>ENOMEM\<close>.
\<close>

theorem vm_fault_loading_out_of_memory:
  "cur_as (text_vm True False) = Some (text_as True)
   \<and> find_region (regions (text_as True)) (0x400123 AND PAGE_FRAME) = Some text_region
   \<and> \<not> writeable text_region
   \<and> loading (text_as True)
   \<and> map_outcome fst (vm_fault os161 True 0 0 VM_FAULT_READONLY 0x400123 (text_vm True False))
       = Done (Some ENOMEM)"
proof -
  have "\<exists>k'. vm_fault os161 True 0 0 VM_FAULT_READONLY 0x400123 (text_vm True False)
      = Done (Some ENOMEM, k')"
    using vm_fault_loading(2)[where k = "text_vm True False" and as = "text_as True"
        and fa = "0x400123 AND PAGE_FRAME" and r = text_region and km = True and stolen = 0
        and K = os161 and rnd = 0 and ftype = VM_FAULT_READONLY, folded vm_fault_def]
    by (auto simp add: text_facts)
  then show ?thesis by (auto simp add: text_facts)
qed

text \<open>
  The theorem on the text page: an address outside every range; the read-only page
  without and with the loading flag, with \<^verbatim>\<open>kmalloc\<close> failing, with no free frame, and
  with a free frame.
\<close>

theorem vm_fault_spec_witness:
  "vm_fault os161 True 0 0 VM_FAULT_READ 0x10000123 (text_vm False True)
     = Done (Some EFAULT, text_vm False True)
   \<and> vm_fault os161 True 0 0 VM_FAULT_READONLY 0x400123 (text_vm False True)
     = Done (Some EFAULT, text_vm False True)
   \<and> vm_fault os161 False 0 0 VM_FAULT_READONLY 0x400123 (text_vm True True)
     = Done (Some ENOMEM, text_vm True True)
   \<and> (\<exists>k'. vm_fault os161 True 0 0 VM_FAULT_READONLY 0x400123 (text_vm True False)
           = Done (Some ENOMEM, k')
         \<and> tlb k' = tlb (text_vm True False) \<and> cm k' = cm (text_vm True False))
   \<and> (\<exists>k' as' i. vm_fault os161 True 0 0 VM_FAULT_READONLY 0x400123 (text_vm True True)
           = Done (None, k')
         \<and> cur_as k' = Some as' \<and> pt_lookup as' (0x400123 AND PAGE_FRAME) \<noteq> 0
         \<and> i < 64
         \<and> tlb k' = (tlb (text_vm True True))(i := (0x400000,
               pt_lookup as' (0x400123 AND PAGE_FRAME) OR 0x200 OR 0x400)))"
proof -
  have out: "find_region (regions (text_as False)) (0x10000123 AND PAGE_FRAME) = None"
    "\<not> (heap_base (text_as False) \<le> 0x10000123 AND PAGE_FRAME
        \<and> 0x10000123 AND PAGE_FRAME < heap_end (text_as False))"
    "\<not> (stack_end (text_as False) \<le> 0x10000123 AND PAGE_FRAME
        \<and> 0x10000123 AND PAGE_FRAME < stack_base (text_as False))"
    by (simp_all add: text_as_def text_region_def PAGE_FRAME_def PAGE_SIZE_def)
  have K: "NUM_TLB os161 = 64" "TLBLO_VALID os161 = 0x200" "TLBLO_DIRTY os161 = 0x400"
    by (simp_all add: os161_def)
  have al: "(0x400123 :: 32 word) AND PAGE_FRAME = 0x400000"
    by (simp add: PAGE_FRAME_def)
  have fr: "find_region (regions (text_as True)) 0x400000 = Some text_region"
    using text_facts(2)[of True] by (simp only: al)
  have c1: "vm_fault os161 True 0 0 VM_FAULT_READ 0x10000123 (text_vm False True)
     = Done (Some EFAULT, text_vm False True)"
    using vm_fault_spec[where k = "text_vm False True" and as = "text_as False"
        and a = "0x10000123" and K = os161 and km = True and stolen = 0 and rnd = 0
        and ftype = VM_FAULT_READ and r = text_region]
    by (simp add: text_facts out)
  have c2: "vm_fault os161 True 0 0 VM_FAULT_READONLY 0x400123 (text_vm False True)
     = Done (Some EFAULT, text_vm False True)"
    using vm_fault_spec[where k = "text_vm False True" and as = "text_as False"
        and a = "0x400123" and K = os161 and km = True and stolen = 0 and rnd = 0
        and ftype = VM_FAULT_READ and r = text_region]
    by (simp add: text_facts)
  have c3: "vm_fault os161 False 0 0 VM_FAULT_READONLY 0x400123 (text_vm True True)
     = Done (Some ENOMEM, text_vm True True)"
    using vm_fault_spec[where k = "text_vm True True" and as = "text_as True"
        and a = "0x400123" and K = os161 and km = False and stolen = 0 and rnd = 0
        and ftype = VM_FAULT_READ and r = text_region]
    by (simp add: text_facts)
  have c4: "\<exists>k'. vm_fault os161 True 0 0 VM_FAULT_READONLY 0x400123 (text_vm True False)
           = Done (Some ENOMEM, k')
         \<and> tlb k' = tlb (text_vm True False) \<and> cm k' = cm (text_vm True False)"
    using vm_fault_spec[where k = "text_vm True False" and as = "text_as True"
        and a = "0x400123" and K = os161 and km = True and stolen = 0 and rnd = 0
        and ftype = VM_FAULT_READ and r = text_region]
    by (simp add: text_facts)
  have c5: "\<exists>k' as' i. vm_fault os161 True 0 0 VM_FAULT_READONLY 0x400123 (text_vm True True)
           = Done (None, k')
         \<and> cur_as k' = Some as' \<and> pt_lookup as' (0x400123 AND PAGE_FRAME) \<noteq> 0
         \<and> i < 64
         \<and> tlb k' = (tlb (text_vm True True))(i := (0x400000,
               pt_lookup as' (0x400123 AND PAGE_FRAME) OR 0x200 OR 0x400))"
    using vm_fault_spec[where k = "text_vm True True" and as = "text_as True"
        and a = "0x400123" and K = os161 and km = True and stolen = 0 and rnd = 0
        and ftype = VM_FAULT_READ and r = text_region]
    by (simp add: text_facts K al fr)
  from c1 c2 c3 c4 c5 show ?thesis by (intro conjI)
qed

section \<open>Properties of the file table and the file system calls\<close>

lemma obind_Done [simp]: "obind (Done x) f = f x"
  by (simp add: obind_def)

lemma obind_abnormal [simp]:
  "obind Undefined f = Undefined" "obind Panic f = Panic" "obind Blocked f = Blocked"
  by (simp_all add: obind_def)

lemma ft_slot_in_range:
  "0 \<le> i \<Longrightarrow> i < int (OPEN_MAX K) \<Longrightarrow> ft_slot K ft i = Done (ft (nat i))"
  by (simp add: ft_slot_def)

lemma destroy_file_table_loop_keeps_heap:
  "\<forall>i\<in>set is. i < OPEN_MAX K \<Longrightarrow> \<exists>ft'. destroy_file_table_loop K is ft h = Done (ft', h)"
proof (induction "is" arbitrary: ft)
  case Nil
  then show ?case by simp
next
  case (Cons i "is")
  have "ft_slot K (ft(i := None)) (int i) = Done None"
    using Cons.prems by (simp add: ft_slot_def)
  then show ?case
    using Cons by (simp add: open_file_decref_def)
qed

lemma destroy_file_table_keeps_heap: "destroy_file_table K ftp h = Done h"
proof (cases ftp)
  case None
  then show ?thesis by (simp add: destroy_file_table_def)
next
  case (Some ft)
  obtain ft' where "destroy_file_table_loop K [0..<OPEN_MAX K] ft h = Done (ft', h)"
    using destroy_file_table_loop_keeps_heap[of "[0..<OPEN_MAX K]" K ft h] by auto
  with Some show ?thesis by (simp add: destroy_file_table_def)
qed

text \<open>
  Claim C1 (the code departs from it). \<^verbatim>\<open>destroy_file_table\<close> stores \<^verbatim>\<open>NULL\<close> in a slot
  before it passes the slot to \<^verbatim>\<open>open_file_decref\<close>, so it never decrements a
  reference count and never closes a vnode: whatever the table holds, the heap is
  unchanged (\<open>destroy_file_table_keeps_heap\<close>). At a table whose descriptor 3 holds the
  only reference to an object, the object survives with reference count 1 and no vnode
  is closed, although no slot points to it any more; \<^verbatim>\<open>sys_close\<close> on the same
  descriptor drops the reference and closes the vnode once.
\<close>

theorem destroy_file_table_skips_decref:
  "example_ft 3 = Some 0
   \<and> ofiles example_heap 0 = Some \<lparr>offset = 0, flags = 1, file_vn = 7, reference_count = 1\<rparr>
   \<and> destroy_file_table os161 (Some example_ft) example_heap = Done example_heap
   \<and> vfs_closed example_heap = []
   \<and> sys_close os161 3 example_ft example_heap =
       Done (None, example_ft(3 := None), \<lparr>ofiles = (\<lambda>p. None), vfs_closed = [7]\<rparr>)"
proof -
  have "sys_close os161 3 example_ft example_heap =
       Done (None, example_ft(3 := None), \<lparr>ofiles = (\<lambda>p. None), vfs_closed = [7]\<rparr>)"
    by (auto simp add: sys_close_def ft_slot_def os161_def example_ft_def example_heap_def
        open_file_decref_def open_file_destroy_def Let_def fun_eq_iff)
  then show ?thesis
    by (simp add: destroy_file_table_keeps_heap) (simp add: example_ft_def example_heap_def)
qed

text \<open>
  Claim C2 (the code departs from it). \<^verbatim>\<open>sys_write\<close> tests \<^verbatim>\<open>fd > __OPEN_MAX\<close>, so
  \<^verbatim>\<open>fd = __OPEN_MAX\<close> passes the test and the call reads \<^verbatim>\<open>ft->files[__OPEN_MAX]\<close>, one
  slot past the end of the array, instead of returning \<open>EBADF\<close>. \<^verbatim>\<open>sys_read\<close>,
  \<^verbatim>\<open>sys_lseek\<close> and \<^verbatim>\<open>sys_close\<close> return \<open>EBADF\<close> for the same descriptor.
\<close>

theorem sys_write_fd_open_max:
  "sys_write K vfs (int (OPEN_MAX K)) buf nbytes ft h = Undefined
   \<and> sys_read K vfs (int (OPEN_MAX K)) buf nbytes ft h = Done (Some EBADF, None, h)
   \<and> sys_lseek K vfs (int (OPEN_MAX K)) pos whence ft h = Done (Some EBADF, None, h)
   \<and> sys_close K (int (OPEN_MAX K)) ft h = Done (Some EBADF, ft, h)"
  by (simp add: sys_write_def sys_read_def sys_lseek_def sys_close_def ft_slot_def)

lemma sys_dup2_same_object:
  assumes "0 \<le> oldfd" "oldfd < int (OPEN_MAX K)" "0 \<le> newfd" "newfd < int (OPEN_MAX K)"
    and "oldfd = newfd \<or> (\<exists>p. ft (nat oldfd) = Some p \<and> ft (nat newfd) = Some p)"
  shows "sys_dup2 K oldfd newfd ft h = Done (None, Some newfd, ft, h)"
  using assms by (auto simp add: sys_dup2_def ft_slot_def)

lemma sys_dup2_Done_cases:
  assumes "sys_dup2 K oldfd newfd ft h = Done (rc, rv, ft', h')"
  shows "(rc = Some EBADF \<and> rv = None \<and> ft' = ft \<and> h' = h)
       \<or> (rc = None \<and> rv = Some newfd \<and> ft' = ft \<and> h' = h
            \<and> 0 \<le> oldfd \<and> oldfd < int (OPEN_MAX K) \<and> 0 \<le> newfd \<and> newfd < int (OPEN_MAX K)
            \<and> (oldfd = newfd \<or> (\<exists>p. ft (nat oldfd) = Some p \<and> ft (nat newfd) = Some p)))
       \<or> (rc = None \<and> rv = Some newfd
            \<and> 0 \<le> oldfd \<and> oldfd < int (OPEN_MAX K) \<and> 0 \<le> newfd \<and> newfd < int (OPEN_MAX K)
            \<and> oldfd \<noteq> newfd
            \<and> (\<exists>p. ft (nat oldfd) = Some p \<and> ft' = ft(nat newfd := Some p)))"
  using assms
  by (auto simp add: sys_dup2_def ft_slot_def obind_def
      split: if_splits option.splits outcome.splits prod.splits)

text \<open>
  Claim C10. If both descriptors are in range and either are equal or hold the same
  open-file object, \<open>sys_dup2\<close> returns 0 with result \<open>newfd\<close> and leaves the file table
  and the heap (so every reference count) unchanged. And whenever a call of \<open>sys_dup2\<close>
  returns, the same call repeated on the state it left returns the same result and
  leaves that state as it is.
\<close>

theorem sys_dup2_idempotent:
  "(0 \<le> oldfd \<and> oldfd < int (OPEN_MAX K) \<and> 0 \<le> newfd \<and> newfd < int (OPEN_MAX K)
      \<and> (oldfd = newfd \<or> (\<exists>p. ft (nat oldfd) = Some p \<and> ft (nat newfd) = Some p))
     \<longrightarrow> sys_dup2 K oldfd newfd ft h = Done (None, Some newfd, ft, h))
   \<and> (sys_dup2 K oldfd newfd ft h = Done (rc, rv, ft', h')
     \<longrightarrow> sys_dup2 K oldfd newfd ft' h' = Done (rc, rv, ft', h'))"
proof (intro conjI impI)
  assume "0 \<le> oldfd \<and> oldfd < int (OPEN_MAX K) \<and> 0 \<le> newfd \<and> newfd < int (OPEN_MAX K)
      \<and> (oldfd = newfd \<or> (\<exists>p. ft (nat oldfd) = Some p \<and> ft (nat newfd) = Some p))"
  then show "sys_dup2 K oldfd newfd ft h = Done (None, Some newfd, ft, h)"
    by (intro sys_dup2_same_object) auto
next
  assume first: "sys_dup2 K oldfd newfd ft h = Done (rc, rv, ft', h')"
  from sys_dup2_Done_cases[OF first]
  consider (err) "rc = Some EBADF" "rv = None" "ft' = ft" "h' = h"
    | (same) "rc = None" "rv = Some newfd" "ft' = ft" "h' = h"
    | (dup) p where "rc = None" "rv = Some newfd"
        "0 \<le> oldfd" "oldfd < int (OPEN_MAX K)" "0 \<le> newfd" "newfd < int (OPEN_MAX K)"
        "oldfd \<noteq> newfd" "ft (nat oldfd) = Some p" "ft' = ft(nat newfd := Some p)"
    by blast
  then show "sys_dup2 K oldfd newfd ft' h' = Done (rc, rv, ft', h')"
  proof cases
    case err
    with first show ?thesis by simp
  next
    case same
    with first show ?thesis by simp
  next
    case dup
    have "nat oldfd \<noteq> nat newfd" using dup by auto
    then have "ft' (nat oldfd) = Some p" "ft' (nat newfd) = Some p"
      using dup by simp_all
    then have "sys_dup2 K oldfd newfd ft' h' = Done (None, Some newfd, ft', h')"
      using dup by (intro sys_dup2_same_object) auto
    with dup show ?thesis by simp
  qed
qed

text \<open>
  The theorem at a table where descriptor 3 is open and 10 is not: the first
  \<open>dup2(3, 10)\<close> installs the object in slot 10 and raises its count to 2, the second
  changes nothing; \<open>dup2(3, 3)\<close> changes nothing.
\<close>

theorem sys_dup2_idempotent_witness:
  "sys_dup2 os161 3 10 example_ft example_heap =
     Done (None, Some 10, example_ft(10 := Some 0), example_heap2)
   \<and> sys_dup2 os161 3 10 (example_ft(10 := Some 0)) example_heap2 =
     Done (None, Some 10, example_ft(10 := Some 0), example_heap2)
   \<and> sys_dup2 os161 3 3 example_ft example_heap = Done (None, Some 3, example_ft, example_heap)"
proof -
  have first: "sys_dup2 os161 3 10 example_ft example_heap =
     Done (None, Some 10, example_ft(10 := Some 0), example_heap2)"
    by (auto simp add: sys_dup2_def ft_slot_def os161_def example_ft_def example_heap_def
        example_heap2_def open_file_incref_def fun_eq_iff)
  have "OPEN_MAX os161 = 128" by (simp add: os161_def)
  then show ?thesis
    using first
      sys_dup2_idempotent[where oldfd = 3 and newfd = 10 and K = os161 and ft = example_ft
        and h = example_heap and rc = None and rv = "Some 10"
        and ft' = "example_ft(10 := Some 0)" and h' = example_heap2]
      sys_dup2_idempotent[where oldfd = 3 and newfd = 3 and K = os161 and ft = example_ft
        and h = example_heap]
    by simp
qed

lemma heap_same:
  "ofiles h p = Some f \<Longrightarrow> h\<lparr>ofiles := (ofiles h)(p \<mapsto> f)\<rparr> = h"
  by (simp add: map_upd_triv)

lemma incref_live:
  "ofiles h p = Some f \<Longrightarrow>
   open_file_incref p h =
     Done (h\<lparr>ofiles := (ofiles h)(p \<mapsto> f\<lparr>reference_count := reference_count f + 1\<rparr>)\<rparr>)"
  by (simp add: open_file_incref_def)

lemma decref_after_incref:
  assumes "ofiles h p = Some f" "reference_count f \<noteq> 0"
  shows "open_file_decref (Some p)
           (h\<lparr>ofiles := (ofiles h)(p \<mapsto> g\<lparr>reference_count := reference_count f + 1\<rparr>)\<rparr>)
         = Done (h\<lparr>ofiles := (ofiles h)(p \<mapsto> g\<lparr>reference_count := reference_count f\<rparr>)\<rparr>)"
  using assms by (simp add: open_file_decref_def Let_def)

lemma set_offset_live:
  "set_offset p v (h\<lparr>ofiles := (ofiles h)(p \<mapsto> g)\<rparr>) =
     Done (h\<lparr>ofiles := (ofiles h)(p \<mapsto> g\<lparr>offset := v\<rparr>)\<rparr>)"
  by (simp add: set_offset_def)

lemma sys_lseek_live:
  assumes fd: "0 \<le> fd" "fd < int (OPEN_MAX K)"
    and slot: "ft (nat fd) = Some p"
    and obj: "ofiles h p = Some f"
    and rc: "0 < reference_count f"
  shows "sys_lseek K vfs fd pos whence ft h =
     (if \<not> VOP_ISSEEKABLE vfs (file_vn f) then Done (Some ESPIPE, None, h)
      else if whence = SEEK_END \<and> isl (VOP_STAT vfs (file_vn f))
        then Done (Some (projl (VOP_STAT vfs (file_vn f))), None, h)
      else case lseek_new_offset (offset f) (projr (VOP_STAT vfs (file_vn f))) pos whence of
             None \<Rightarrow> Done (Some EINVAL, None, h)
           | Some t \<Rightarrow> if sint t < 0 then Done (Some EINVAL, None, h)
                       else Done (None, Some t, h\<lparr>ofiles := (ofiles h)(p \<mapsto> f\<lparr>offset := t\<rparr>)\<rparr>))"
proof -
  have rc0: "reference_count f \<noteq> 0" using rc by simp
  have keep1: "h\<lparr>ofiles := (ofiles h)(p \<mapsto> f\<lparr>reference_count := reference_count f\<rparr>)\<rparr> = h"
    using obj by (simp add: map_upd_triv)
  have keep2: "\<And>t. f\<lparr>offset := t, reference_count := reference_count f\<rparr> = f\<lparr>offset := t\<rparr>"
    by simp
  have d1: "open_file_decref (Some p)
           (h\<lparr>ofiles := (ofiles h)(p \<mapsto> f\<lparr>reference_count := reference_count f + 1\<rparr>)\<rparr>) = Done h"
    using decref_after_incref[OF obj rc0, of f] keep1 by simp
  have d2: "open_file_decref (Some p)
           (h\<lparr>ofiles := (ofiles h)(p \<mapsto> f\<lparr>reference_count := reference_count f + 1, offset := t\<rparr>)\<rparr>)
         = Done (h\<lparr>ofiles := (ofiles h)(p \<mapsto> f\<lparr>offset := t\<rparr>)\<rparr>)" for t
  proof -
    have e1: "f\<lparr>reference_count := reference_count f + 1, offset := t\<rparr>
      = (f\<lparr>offset := t\<rparr>)\<lparr>reference_count := reference_count f + 1\<rparr>"
      by simp
    have e2: "(f\<lparr>offset := t\<rparr>)\<lparr>reference_count := reference_count f\<rparr> = f\<lparr>offset := t\<rparr>"
      by simp
    show ?thesis
      using decref_after_incref[OF obj rc0, of "f\<lparr>offset := t\<rparr>"] by (simp only: e1 e2)
  qed
  show ?thesis
    using fd slot
    by (cases "VOP_STAT vfs (file_vn f)")
       (simp_all add: sys_lseek_def ft_slot_def obind_def incref_live[OF obj] d1 d2 set_offset_live
          lseek_new_offset_def Let_def SEEK_SET_def SEEK_CUR_def SEEK_END_def)
qed

lemma sys_lseek_ebadf:
  "fd < 0 \<or> int (OPEN_MAX K) \<le> fd \<or> ft (nat fd) = None \<Longrightarrow>
   sys_lseek K vfs fd pos whence ft h = Done (Some EBADF, None, h)"
  by (auto simp add: sys_lseek_def ft_slot_def obind_def)

text \<open>
  Claim C8. \<open>sys_lseek\<close> returns \<open>EBADF\<close> for a descriptor out of range or not open. For
  an open descriptor whose object is live (its reference count is positive, as it is for
  every object a slot points to): \<open>ESPIPE\<close> if the vnode is not seekable; otherwise the
  new offset is \<open>pos\<close> for \<open>SEEK_SET\<close>, the current offset plus \<open>pos\<close> for \<open>SEEK_CUR\<close>, and
  the size \<^verbatim>\<open>stat\<close> reports plus \<open>pos\<close> for \<open>SEEK_END\<close> (an error of \<^verbatim>\<open>stat\<close> is
  returned as it is); any other \<open>whence\<close> and any negative new offset give \<open>EINVAL\<close>.
  Every error leaves the heap, so the offset, unchanged; on success the new offset is
  stored in the object and returned.
\<close>

theorem sys_lseek_spec:
  "(fd < 0 \<or> int (OPEN_MAX K) \<le> fd \<or> ft (nat fd) = None \<longrightarrow>
      sys_lseek K vfs fd pos whence ft h = Done (Some EBADF, None, h))
   \<and> (0 \<le> fd \<and> fd < int (OPEN_MAX K) \<and> ft (nat fd) = Some p \<and> ofiles h p = Some f
        \<and> 0 < reference_count f \<longrightarrow>
      (\<not> VOP_ISSEEKABLE vfs (file_vn f) \<longrightarrow>
         sys_lseek K vfs fd pos whence ft h = Done (Some ESPIPE, None, h))
      \<and> (VOP_ISSEEKABLE vfs (file_vn f) \<and> whence = SEEK_END
           \<and> VOP_STAT vfs (file_vn f) = Inl e \<longrightarrow>
         sys_lseek K vfs fd pos whence ft h = Done (Some e, None, h))
      \<and> (VOP_ISSEEKABLE vfs (file_vn f)
           \<and> (whence = SEEK_END \<longrightarrow> VOP_STAT vfs (file_vn f) = Inr st_size) \<longrightarrow>
         (case lseek_new_offset (offset f) st_size pos whence of
            None \<Rightarrow> sys_lseek K vfs fd pos whence ft h = Done (Some EINVAL, None, h)
          | Some t \<Rightarrow>
              (sint t < 0 \<longrightarrow> sys_lseek K vfs fd pos whence ft h = Done (Some EINVAL, None, h))
              \<and> (0 \<le> sint t \<longrightarrow>
                   sys_lseek K vfs fd pos whence ft h =
                     Done (None, Some t, h\<lparr>ofiles := (ofiles h)(p \<mapsto> f\<lparr>offset := t\<rparr>)\<rparr>)))))"
proof (intro conjI impI)
  assume "fd < 0 \<or> int (OPEN_MAX K) \<le> fd \<or> ft (nat fd) = None"
  then show "sys_lseek K vfs fd pos whence ft h = Done (Some EBADF, None, h)"
    by (rule sys_lseek_ebadf)
next
  assume live: "0 \<le> fd \<and> fd < int (OPEN_MAX K) \<and> ft (nat fd) = Some p \<and> ofiles h p = Some f
        \<and> 0 < reference_count f"
  then have eq: "sys_lseek K vfs fd pos whence ft h =
     (if \<not> VOP_ISSEEKABLE vfs (file_vn f) then Done (Some ESPIPE, None, h)
      else if whence = SEEK_END \<and> isl (VOP_STAT vfs (file_vn f))
        then Done (Some (projl (VOP_STAT vfs (file_vn f))), None, h)
      else case lseek_new_offset (offset f) (projr (VOP_STAT vfs (file_vn f))) pos whence of
             None \<Rightarrow> Done (Some EINVAL, None, h)
           | Some t \<Rightarrow> if sint t < 0 then Done (Some EINVAL, None, h)
                       else Done (None, Some t, h\<lparr>ofiles := (ofiles h)(p \<mapsto> f\<lparr>offset := t\<rparr>)\<rparr>))"
    by (intro sys_lseek_live) auto
  {
    assume "\<not> VOP_ISSEEKABLE vfs (file_vn f)"
    then show "sys_lseek K vfs fd pos whence ft h = Done (Some ESPIPE, None, h)"
      by (simp add: eq)
  }
  {
    assume "VOP_ISSEEKABLE vfs (file_vn f) \<and> whence = SEEK_END
           \<and> VOP_STAT vfs (file_vn f) = Inl e"
    then show "sys_lseek K vfs fd pos whence ft h = Done (Some e, None, h)"
      using eq by auto
  }
  {
    assume a: "VOP_ISSEEKABLE vfs (file_vn f)
           \<and> (whence = SEEK_END \<longrightarrow> VOP_STAT vfs (file_vn f) = Inr st_size)"
    have same: "lseek_new_offset (offset f) (projr (VOP_STAT vfs (file_vn f))) pos whence
        = lseek_new_offset (offset f) st_size pos whence"
      using a by (auto simp add: lseek_new_offset_def)
    show "case lseek_new_offset (offset f) st_size pos whence of
            None \<Rightarrow> sys_lseek K vfs fd pos whence ft h = Done (Some EINVAL, None, h)
          | Some t \<Rightarrow>
              (sint t < 0 \<longrightarrow> sys_lseek K vfs fd pos whence ft h = Done (Some EINVAL, None, h))
              \<and> (0 \<le> sint t \<longrightarrow>
                   sys_lseek K vfs fd pos whence ft h =
                     Done (None, Some t, h\<lparr>ofiles := (ofiles h)(p \<mapsto> f\<lparr>offset := t\<rparr>)\<rparr>))"
      using a by (auto simp add: eq same split: option.splits)
  }
qed

text \<open>
  The theorem on a file of 100 bytes at descriptor 3: seek to 10, back by 5, to the end,
  to \<open>-1\<close> (\<open>EINVAL\<close>), with an unknown \<open>whence\<close> (\<open>EINVAL\<close>); on the console (\<open>ESPIPE\<close>);
  on a closed descriptor and on descriptor \<open>OPEN_MAX\<close> (\<open>EBADF\<close>).
\<close>

theorem sys_lseek_spec_witness:
  "sys_lseek os161 example_vfs 3 10 SEEK_SET example_ft (example_heap_at 0)
     = Done (None, Some 10, example_heap_at 10)
   \<and> sys_lseek os161 example_vfs 3 (- 5) SEEK_CUR example_ft (example_heap_at 10)
     = Done (None, Some 5, example_heap_at 5)
   \<and> sys_lseek os161 example_vfs 3 0 SEEK_END example_ft (example_heap_at 5)
     = Done (None, Some 100, example_heap_at 100)
   \<and> sys_lseek os161 example_vfs 3 (- 1) SEEK_SET example_ft (example_heap_at 100)
     = Done (Some EINVAL, None, example_heap_at 100)
   \<and> sys_lseek os161 example_vfs 3 0 7 example_ft (example_heap_at 100)
     = Done (Some EINVAL, None, example_heap_at 100)
   \<and> sys_lseek os161 example_vfs 0 0 SEEK_SET console_ft console_heap
     = Done (Some ESPIPE, None, console_heap)
   \<and> sys_lseek os161 example_vfs 4 0 SEEK_SET example_ft (example_heap_at 0)
     = Done (Some EBADF, None, example_heap_at 0)
   \<and> sys_lseek os161 example_vfs 128 0 SEEK_SET example_ft (example_heap_at 0)
     = Done (Some EBADF, None, example_heap_at 0)"
proof -
  let ?f = "\<lambda>off. \<lparr>offset = off, flags = 1, file_vn = 7, reference_count = 1\<rparr>"
  let ?c = "\<lparr>offset = 0, flags = 0, file_vn = 2, reference_count = 1\<rparr> :: open_file_handler"
  have upd: "\<And>a b. (example_heap_at a)\<lparr>ofiles := (ofiles (example_heap_at a))(0 \<mapsto> ?f b)\<rparr>
      = example_heap_at b"
    by (simp add: example_heap_at_def fun_eq_iff)
  have o: "\<And>a. ofiles (example_heap_at a) 0 = Some (?f a)"
    by (simp add: example_heap_at_def)
  have c: "ofiles console_heap 0 = Some ?c"
    by (simp add: console_heap_def)
  have K: "OPEN_MAX os161 = 128" by (simp add: os161_def)
  have v: "VOP_ISSEEKABLE example_vfs 7" "\<not> VOP_ISSEEKABLE example_vfs 2"
    "\<And>x. VOP_STAT example_vfs x = Inr 100"
    by (simp_all add: example_vfs_def)
  have t: "example_ft 3 = Some 0" "example_ft 4 = None" "console_ft 0 = Some 0"
    by (simp_all add: example_ft_def console_ft_def)
  note th = sys_lseek_spec[where K = os161 and vfs = example_vfs and st_size = 100]
  show ?thesis
    using
      th[where fd = 3 and pos = 10 and whence = SEEK_SET and ft = example_ft
          and h = "example_heap_at 0" and p = 0 and f = "?f 0"]
      th[where fd = 3 and pos = "- 5" and whence = SEEK_CUR and ft = example_ft
          and h = "example_heap_at 10" and p = 0 and f = "?f 10"]
      th[where fd = 3 and pos = 0 and whence = SEEK_END and ft = example_ft
          and h = "example_heap_at 5" and p = 0 and f = "?f 5"]
      th[where fd = 3 and pos = "- 1" and whence = SEEK_SET and ft = example_ft
          and h = "example_heap_at 100" and p = 0 and f = "?f 100"]
      th[where fd = 3 and pos = 0 and whence = 7 and ft = example_ft
          and h = "example_heap_at 100" and p = 0 and f = "?f 100"]
      th[where fd = 0 and pos = 0 and whence = SEEK_SET and ft = console_ft
          and h = console_heap and p = 0 and f = ?c]
      th[where fd = 4 and pos = 0 and whence = SEEK_SET and ft = example_ft
          and h = "example_heap_at 0"]
      th[where fd = 128 and pos = 0 and whence = SEEK_SET and ft = example_ft
          and h = "example_heap_at 0"]
    by (simp add: K v t o c upd lseek_new_offset_def SEEK_SET_def SEEK_CUR_def SEEK_END_def)
qed

section \<open>Properties of PID management and the exit/wait rendezvous\<close>

lemma proc_allocpid_loop_full:
  "\<forall>i\<in>set is. tbl i \<noteq> None \<Longrightarrow> proc_allocpid_loop is p tbl = None"
  by (induction "is") auto

lemma proc_allocpid_loop_lowest:
  "proc_allocpid_loop [m..<n] p tbl = Some (i, tbl') \<Longrightarrow>
   m \<le> i \<and> i < n \<and> tbl i = None \<and> (\<forall>j. m \<le> j \<and> j < i \<longrightarrow> tbl j \<noteq> None)
     \<and> tbl' = tbl(i := Some p)"
proof (induction "n - m" arbitrary: m)
  case 0
  then show ?case by simp
next
  case (Suc d)
  then have mn: "m < n" by simp
  then have unf: "[m..<n] = m # [Suc m..<n]" by (simp add: upt_conv_Cons)
  show ?case
  proof (cases "tbl m = None")
    case True
    with Suc.prems unf have "i = m" "tbl' = tbl(m := Some p)" by auto
    with True mn show ?thesis by auto
  next
    case False
    with Suc.prems unf have rest: "proc_allocpid_loop [Suc m..<n] p tbl = Some (i, tbl')" by simp
    have "d = n - Suc m" using Suc.hyps(2) by simp
    from Suc.hyps(1)[OF this rest]
    have ih: "Suc m \<le> i" "i < n" "tbl i = None"
      "\<forall>j. Suc m \<le> j \<and> j < i \<longrightarrow> tbl j \<noteq> None" "tbl' = tbl(i := Some p)"
      by simp_all
    have "\<forall>j. m \<le> j \<and> j < i \<longrightarrow> tbl j \<noteq> None"
    proof (intro allI impI)
      fix j assume j: "m \<le> j \<and> j < i"
      show "tbl j \<noteq> None"
      proof (cases "j = m")
        case True
        with False show ?thesis by simp
      next
        case False
        with j have "Suc m \<le> j \<and> j < i" by simp
        with ih(4) show ?thesis by blast
      qed
    qed
    with ih show ?thesis by simp
  qed
qed

lemma proc_allocpid_loop_finds:
  "m \<le> i \<Longrightarrow> i < n \<Longrightarrow> tbl i = None \<Longrightarrow> \<forall>j. m \<le> j \<and> j < i \<longrightarrow> tbl j \<noteq> None \<Longrightarrow>
   proc_allocpid_loop [m..<n] p tbl = Some (i, tbl(i := Some p))"
proof (induction "i - m" arbitrary: m)
  case 0
  then have "m = i" by simp
  with 0 have "[m..<n] = i # [Suc i..<n]" by (simp add: upt_conv_Cons)
  with 0 show ?case by (simp add: fun_eq_iff)
next
  case (Suc d)
  then have lt: "m < i" by simp
  with Suc.prems have unf: "[m..<n] = m # [Suc m..<n]" by (simp add: upt_conv_Cons)
  have taken: "tbl m \<noteq> None" using Suc.prems(4) lt by simp
  have "proc_allocpid_loop [Suc m..<n] p tbl = Some (i, tbl(i := Some p))"
    using Suc.hyps(2) Suc.prems lt by (intro Suc.hyps(1)) auto
  with taken unf show ?case by auto
qed

lemma proc_allocpid_lowest_free:
  assumes "proc_allocpid_loop [PID_MIN K..<PID_MAX K] p (pid_table s) = Some (i, tbl')"
  shows "PID_MIN K \<le> i \<and> i < PID_MAX K \<and> pid_table s i = None
    \<and> (\<forall>j. PID_MIN K \<le> j \<and> j < i \<longrightarrow> pid_table s j \<noteq> None)
    \<and> proc_allocpid K p s = (int i, s\<lparr>pid_table := (pid_table s)(i := Some p)\<rparr>)"
  using proc_allocpid_loop_lowest[OF assms] assms by (simp add: proc_allocpid_def)

text \<open>
  Claim C9 (the code departs from it). When a slot is free, \<open>proc_allocpid\<close> assigns the
  lowest free PID of \<open>[PID_MIN, PID_MAX)\<close> (\<open>proc_allocpid_lowest_free\<close>,
  \<open>proc_allocpid_loop_finds\<close>). When none is free it returns the error code \<^verbatim>\<open>ENPROC\<close> as
  if it were a PID, and \<open>proc_create\<close> does not look at it: on a full table
  \<open>proc_create\<close> succeeds and returns a process whose \<open>p_pid\<close> is the value of \<^verbatim>\<open>ENPROC\<close>
  (12 here), a PID whose slot belongs to another process.
\<close>

theorem proc_create_table_full:
  "proc_create os161 (Some 9) True ''child'' full_pids =
     (Some 9, full_pids\<lparr>procs := (procs full_pids)(9 \<mapsto>
        \<lparr>p_name = ''child'', p_pid = ENPROC_value os161, p_parent = - 1, p_exitcode = 0,
         p_exited = False\<rparr>)\<rparr>)
   \<and> ENPROC_value os161 = 12
   \<and> pid_table full_pids 12 = Some 0"
proof -
  have "proc_allocpid_loop [PID_MIN os161..<PID_MAX os161] 9 (pid_table full_pids) = None"
    by (rule proc_allocpid_loop_full) (simp add: full_pids_def)
  then have "proc_allocpid os161 9 full_pids = (ENPROC_value os161, full_pids)"
    by (simp add: proc_allocpid_def)
  then show ?thesis
    by (simp add: proc_create_def) (simp add: os161_def full_pids_def)
qed

lemma sys_waitpid_reap:
  assumes "options = 0" "proc_get K pid s = Some c" "procs s c = Some child" "procs s cur = Some me"
    and "p_parent child = p_pid me" "p_exited child"
    and "if status = 0 then u' = u else copyout status (p_exitcode child) u = Inr u'"
    and "kproc s \<noteq> Some c" "p_pid child = pid"
  shows "sys_waitpid K copyout pid status options cur s u =
     Done (None, Some pid,
           s\<lparr>pid_table := (pid_table s)(nat pid := None), procs := (procs s)(c := None)\<rparr>, u')"
proof -
  have rng: "0 \<le> pid" "pid < int (PID_MAX K)"
    using assms(2) by (auto simp add: proc_get_def split: if_splits)
  have "proc_destroy K c s =
      Done (s\<lparr>pid_table := (pid_table s)(nat pid := None), procs := (procs s)(c := None)\<rparr>)"
    using assms rng by (simp add: proc_destroy_def proc_freepid_def obind_def)
  then show ?thesis
    using assms by (auto simp add: sys_waitpid_def obind_def Let_def)
qed

text \<open>
  Claim C7, amended. \<open>sys_waitpid\<close> returns \<open>EINVAL\<close> if \<open>options\<close> is not 0, \<open>ESRCH\<close> if
  \<open>pid\<close> is outside \<open>[PID_MIN, PID_MAX)\<close> or its slot of the PID table is empty, and
  \<open>ECHILD\<close> if the target's parent PID is not the caller's PID. Otherwise, while the
  target has not exited the caller sleeps (\<open>Blocked\<close>). Once it has exited: if \<open>status\<close>
  is non-null and \<^verbatim>\<open>copyout\<close> of the target's exit code fails, the call returns that
  error and nothing changes; otherwise the exit code has been copied out (when \<open>status\<close>
  is non-null), the target is destroyed, its PID slot is empty again, and the call
  returns 0 with the target's PID. (A slot of the PID table holds the process whose
  \<open>p_pid\<close> is the slot's index, and never \<^verbatim>\<open>kproc\<close>.) The exit code is what \<open>sys__exit\<close>
  stored: \<open>_MKWAIT_EXIT(code & 0xff)\<close>, with the exited flag set.
\<close>

theorem sys_waitpid_spec:
  "(options \<noteq> 0 \<longrightarrow>
      sys_waitpid K copyout pid status options cur s u = Done (Some EINVAL, None, s, u))
   \<and> (options = 0 \<and> (pid < int (PID_MIN K) \<or> int (PID_MAX K) \<le> pid \<or> pid_table s (nat pid) = None) \<longrightarrow>
      sys_waitpid K copyout pid status options cur s u = Done (Some ESRCH, None, s, u))
   \<and> (options = 0 \<and> int (PID_MIN K) \<le> pid \<and> pid < int (PID_MAX K) \<and> pid_table s (nat pid) = Some c
        \<and> procs s c = Some child \<and> procs s cur = Some me \<longrightarrow>
      (p_parent child \<noteq> p_pid me \<longrightarrow>
         sys_waitpid K copyout pid status options cur s u = Done (Some ECHILD, None, s, u))
      \<and> (p_parent child = p_pid me \<and> \<not> p_exited child \<longrightarrow>
         sys_waitpid K copyout pid status options cur s u = Blocked)
      \<and> (p_parent child = p_pid me \<and> p_exited child \<and> status \<noteq> 0
           \<and> copyout status (p_exitcode child) u = Inl err \<longrightarrow>
         sys_waitpid K copyout pid status options cur s u = Done (Some err, None, s, u))
      \<and> (p_parent child = p_pid me \<and> p_exited child
           \<and> (if status = 0 then u' = u else copyout status (p_exitcode child) u = Inr u')
           \<and> kproc s \<noteq> Some c \<and> p_pid child = pid \<longrightarrow>
         sys_waitpid K copyout pid status options cur s u =
           Done (None, Some pid,
                 s\<lparr>pid_table := (pid_table s)(nat pid := None), procs := (procs s)(c := None)\<rparr>, u')
         \<and> proc_get K pid
              (s\<lparr>pid_table := (pid_table s)(nat pid := None), procs := (procs s)(c := None)\<rparr>) = None))
   \<and> (procs t c = Some pr \<longrightarrow>
        sys__exit K code c t =
          Done (t\<lparr>procs := (procs t)(c \<mapsto>
                  pr\<lparr>p_exitcode := MKWAIT_EXIT K (code AND 0xff), p_exited := True\<rparr>)\<rparr>))"
proof (intro conjI impI)
  assume "options \<noteq> 0"
  then show "sys_waitpid K copyout pid status options cur s u = Done (Some EINVAL, None, s, u)"
    by (simp add: sys_waitpid_def)
next
  assume "options = 0 \<and> (pid < int (PID_MIN K) \<or> int (PID_MAX K) \<le> pid \<or> pid_table s (nat pid) = None)"
  then show "sys_waitpid K copyout pid status options cur s u = Done (Some ESRCH, None, s, u)"
    by (auto simp add: sys_waitpid_def proc_get_def)
next
  assume "procs t c = Some pr"
  then show "sys__exit K code c t =
          Done (t\<lparr>procs := (procs t)(c \<mapsto>
                  pr\<lparr>p_exitcode := MKWAIT_EXIT K (code AND 0xff), p_exited := True\<rparr>)\<rparr>)"
    by (simp add: sys__exit_def)
next
  assume a: "options = 0 \<and> int (PID_MIN K) \<le> pid \<and> pid < int (PID_MAX K) \<and> pid_table s (nat pid) = Some c
        \<and> procs s c = Some child \<and> procs s cur = Some me"
  then have g: "proc_get K pid s = Some c" by (simp add: proc_get_def)
  {
    assume "p_parent child \<noteq> p_pid me"
    then show "sys_waitpid K copyout pid status options cur s u = Done (Some ECHILD, None, s, u)"
      using a g by (simp add: sys_waitpid_def)
  }
  {
    assume "p_parent child = p_pid me \<and> \<not> p_exited child"
    then show "sys_waitpid K copyout pid status options cur s u = Blocked"
      using a g by (simp add: sys_waitpid_def)
  }
  {
    assume "p_parent child = p_pid me \<and> p_exited child \<and> status \<noteq> 0
           \<and> copyout status (p_exitcode child) u = Inl err"
    then show "sys_waitpid K copyout pid status options cur s u = Done (Some err, None, s, u)"
      using a g by (simp add: sys_waitpid_def)
  }
  {
    assume b: "p_parent child = p_pid me \<and> p_exited child
           \<and> (if status = 0 then u' = u else copyout status (p_exitcode child) u = Inr u')
           \<and> kproc s \<noteq> Some c \<and> p_pid child = pid"
    show "sys_waitpid K copyout pid status options cur s u =
           Done (None, Some pid,
                 s\<lparr>pid_table := (pid_table s)(nat pid := None), procs := (procs s)(c := None)\<rparr>, u')"
      using a b g by (intro sys_waitpid_reap[where child = child and me = me]) auto
    show "proc_get K pid
              (s\<lparr>pid_table := (pid_table s)(nat pid := None), procs := (procs s)(c := None)\<rparr>) = None"
      by (simp add: proc_get_def)
  }
qed

text \<open>
  Claim C7 as stated fails: with \<open>options = 0\<close>, a target that exists, is a child of the
  caller and has exited, and a non-null \<open>status\<close> that \<^verbatim>\<open>copyout\<close> rejects, the call
  returns the error of \<^verbatim>\<open>copyout\<close>; the child is not destroyed and keeps its PID slot.
\<close>

theorem sys_waitpid_copyout_fails:
  "proc_get os161 3 exited_state = Some 3
   \<and> procs exited_state 3 =
       Some \<lparr>p_name = ''parent'', p_pid = 3, p_parent = 2, p_exitcode = 28, p_exited = True\<rparr>
   \<and> procs exited_state 4 =
       Some \<lparr>p_name = ''parent'', p_pid = 2, p_parent = - 1, p_exitcode = 0, p_exited = False\<rparr>
   \<and> sys_waitpid os161 copyout_efault 3 0x7fffff00 0 4 exited_state () =
       Done (Some EFAULT, None, exited_state, ())
   \<and> sys_waitpid os161 copyout_efault 3 0x7fffff00 0 4 exited_state () \<noteq>
       Done (None, Some 3, reaped_state, ())"
  by (simp add: sys_waitpid_def proc_get_def os161_def exited_state_def copyout_efault_def)

text \<open>
  The theorem on a parent (PID 2) and its child (PID 3): the child calls \<open>_exit(7)\<close>;
  before that the parent's \<open>waitpid\<close> blocks, after it the call stores the packed status,
  reaps the child and returns 3; a null \<open>status\<close> skips the copy; a rejected \<open>status\<close>
  gives the error of \<^verbatim>\<open>copyout\<close>; then the error cases; and the next \<open>proc_create\<close>
  is given PID 3 again.
\<close>

theorem sys_waitpid_spec_witness:
  "sys__exit os161 7 3 wait_state = Done exited_state
   \<and> sys_waitpid os161 copyout_ok 3 0x7fffff00 0 4 wait_state (\<lambda>a. 0) = Blocked
   \<and> sys_waitpid os161 copyout_ok 3 0x7fffff00 0 4 exited_state (\<lambda>a. 0) =
       Done (None, Some 3, reaped_state, (\<lambda>a. 0)(0x7fffff00 := MKWAIT_EXIT os161 7))
   \<and> sys_waitpid os161 copyout_ok 3 0 0 4 exited_state (\<lambda>a. 0) =
       Done (None, Some 3, reaped_state, (\<lambda>a. 0))
   \<and> sys_waitpid os161 copyout_efault 3 0x7fffff00 0 4 exited_state (\<lambda>a::32 word. 0::32 word) =
       Done (Some EFAULT, None, exited_state, (\<lambda>a. 0))
   \<and> sys_waitpid os161 copyout_ok 3 0x7fffff00 1 4 exited_state (\<lambda>a. 0) =
       Done (Some EINVAL, None, exited_state, (\<lambda>a. 0))
   \<and> sys_waitpid os161 copyout_ok 5 0x7fffff00 0 4 exited_state (\<lambda>a. 0) =
       Done (Some ESRCH, None, exited_state, (\<lambda>a. 0))
   \<and> sys_waitpid os161 copyout_ok 2 0x7fffff00 0 3 exited_state (\<lambda>a. 0) =
       Done (Some ECHILD, None, exited_state, (\<lambda>a. 0))
   \<and> proc_create os161 (Some 5) True ''next'' reaped_state =
       (Some 5, reaped_state\<lparr>pid_table := (pid_table reaped_state)(3 := Some 5),
          procs := (procs reaped_state)(5 \<mapsto>
            \<lparr>p_name = ''next'', p_pid = 3, p_parent = - 1, p_exitcode = 0, p_exited = False\<rparr>)\<rparr>)"
proof -
  let ?parent = "\<lparr>p_name = ''parent'', p_pid = 2, p_parent = - 1, p_exitcode = 0, p_exited = False\<rparr>"
  let ?child = "\<lparr>p_name = ''parent'', p_pid = 3, p_parent = 2, p_exitcode = 0, p_exited = False\<rparr>"
  let ?dead = "\<lparr>p_name = ''parent'', p_pid = 3, p_parent = 2, p_exitcode = 28, p_exited = True\<rparr>"
  let ?u = "\<lambda>a::32 word. 0::32 word"
  have K: "PID_MIN os161 = 2" "PID_MAX os161 = 32767" "MKWAIT_EXIT os161 7 = 28"
    by (simp_all add: os161_def)
  have w: "procs wait_state 4 = Some ?parent" "procs wait_state 3 = Some ?child"
    "pid_table wait_state 3 = Some 3" "kproc wait_state = Some 0"
    by (simp_all add: wait_state_def)
  have e: "procs exited_state 4 = Some ?parent" "procs exited_state 3 = Some ?dead"
    "pid_table exited_state 3 = Some 3" "pid_table exited_state 2 = Some 4"
    "pid_table exited_state 5 = None" "kproc exited_state = Some 0"
    by (simp_all add: exited_state_def)
  have x: "wait_state\<lparr>procs := (procs wait_state)(3 \<mapsto> ?dead)\<rparr> = exited_state"
    by (simp add: wait_state_def exited_state_def fun_eq_iff)
  have r: "exited_state\<lparr>pid_table := (pid_table exited_state)(3 := None),
      procs := (procs exited_state)(3 := None)\<rparr> = reaped_state"
    by (simp add: reaped_state_def exited_state_def fun_eq_iff)
  have alloc: "proc_allocpid_loop [PID_MIN os161..<PID_MAX os161] 5 (pid_table reaped_state)
      = Some (3, (pid_table reaped_state)(3 := Some 5))"
    by (rule proc_allocpid_loop_finds) (auto simp add: K reaped_state_def)
  have c9: "proc_create os161 (Some 5) True ''next'' reaped_state =
       (Some 5, reaped_state\<lparr>pid_table := (pid_table reaped_state)(3 := Some 5),
          procs := (procs reaped_state)(5 \<mapsto>
            \<lparr>p_name = ''next'', p_pid = 3, p_parent = - 1, p_exitcode = 0, p_exited = False\<rparr>)\<rparr>)"
    using alloc by (simp add: proc_create_def proc_allocpid_def)
  note th = sys_waitpid_spec[where K = os161 and cur = 4 and me = ?parent and c = 3]
  have c1: "sys__exit os161 7 3 wait_state = Done exited_state"
    using th[where t = wait_state and pr = ?child and code = 7 and options = 0 and s = exited_state and child = ?dead
          and copyout = copyout_ok and pid = 3 and status = 0 and u = ?u and u' = ?u and err = EFAULT]
    by (simp add: K w x)
  have c2: "sys_waitpid os161 copyout_ok 3 0x7fffff00 0 4 wait_state ?u = Blocked"
    using th[where options = 0 and s = wait_state and child = ?child
          and copyout = copyout_ok and pid = 3 and status = "0x7fffff00" and u = ?u
          and u' = ?u and err = EFAULT and t = wait_state and pr = ?child and code = 7]
    by (simp add: K w)
  have c3: "sys_waitpid os161 copyout_ok 3 0x7fffff00 0 4 exited_state ?u =
       Done (None, Some 3, reaped_state, ?u(0x7fffff00 := MKWAIT_EXIT os161 7))"
    using th[where options = 0 and s = exited_state and child = ?dead
          and copyout = copyout_ok and pid = 3 and status = "0x7fffff00" and u = ?u
          and u' = "?u(0x7fffff00 := 28)" and err = EFAULT
          and t = wait_state and pr = ?child and code = 7]
    by (simp add: K e r copyout_ok_def)
  have c4: "sys_waitpid os161 copyout_ok 3 0 0 4 exited_state ?u =
       Done (None, Some 3, reaped_state, ?u)"
    using th[where options = 0 and s = exited_state and child = ?dead
          and copyout = copyout_ok and pid = 3 and status = 0 and u = ?u and u' = ?u
          and err = EFAULT and t = wait_state and pr = ?child and code = 7]
    by (simp add: K e r)
  have c5: "sys_waitpid os161 copyout_efault 3 0x7fffff00 0 4 exited_state ?u =
       Done (Some EFAULT, None, exited_state, ?u)"
    using th[where options = 0 and s = exited_state and child = ?dead
          and copyout = copyout_efault and pid = 3 and status = "0x7fffff00" and u = ?u
          and err = EFAULT and u' = ?u and t = wait_state and pr = ?child and code = 7]
    by (simp add: K e copyout_efault_def)
  have c6: "sys_waitpid os161 copyout_ok 3 0x7fffff00 1 4 exited_state ?u =
       Done (Some EINVAL, None, exited_state, ?u)"
    using th[where options = 1 and s = exited_state and child = ?dead and u' = ?u and err = EFAULT
          and copyout = copyout_ok and pid = 3 and status = "0x7fffff00" and u = ?u
          and t = wait_state and pr = ?child and code = 7]
    by simp
  have c7: "sys_waitpid os161 copyout_ok 5 0x7fffff00 0 4 exited_state ?u =
       Done (Some ESRCH, None, exited_state, ?u)"
    using th[where options = 0 and s = exited_state and child = ?dead and u' = ?u and err = EFAULT
          and copyout = copyout_ok and pid = 5 and status = "0x7fffff00" and u = ?u
          and t = wait_state and pr = ?child and code = 7]
    by (simp add: K e)
  have c8: "sys_waitpid os161 copyout_ok 2 0x7fffff00 0 3 exited_state ?u =
       Done (Some ECHILD, None, exited_state, ?u)"
    using sys_waitpid_spec[where K = os161 and cur = 3 and me = ?dead and c = 4 and child = ?parent
          and options = 0 and s = exited_state
          and copyout = copyout_ok and pid = 2 and status = "0x7fffff00" and u = ?u
          and u' = ?u and err = EFAULT and t = wait_state and pr = ?child and code = 7]
    by (simp add: K e)
  show ?thesis
    using c1 c2 c3 c4 c5 c6 c7 c8 c9 by (intro conjI)
qed

section \<open>execv: failure leaves the caller as it was\<close>

lemma same_caller_refl [simp]: "same_caller s s"
  by (simp add: same_caller_def)

lemma same_caller_trans: "same_caller s t \<Longrightarrow> same_caller t u \<Longrightarrow> same_caller s u"
  by (simp add: same_caller_def)

lemma same_caller_steps [simp]:
  "same_caller s (set_uvm u t) = same_caller s t"
  "same_caller s (snd (proc_setas a t)) = same_caller s t"
  "same_caller s (exec_activate K t) = same_caller s t"
  "same_caller s (t\<lparr>exec_closed := x\<rparr>) = same_caller s t"
  "same_caller s (t\<lparr>vm := y\<rparr>) = same_caller s t"
  by (simp_all add: same_caller_def set_uvm_def proc_setas_def exec_activate_def split: prod.splits)

lemma same_caller_steps_left [simp]:
  "same_caller (set_uvm u t) s = same_caller t s"
  "same_caller (snd (proc_setas a t)) s = same_caller t s"
  "same_caller (exec_activate K t) s = same_caller t s"
  "same_caller (t\<lparr>exec_closed := x\<rparr>) s = same_caller t s"
  "same_caller (t\<lparr>vm := y\<rparr>) s = same_caller t s"
  by (simp_all add: same_caller_def set_uvm_def proc_setas_def exec_activate_def split: prod.splits)









end
